theory Spec2Isabelle
  imports Complex_Main
begin

section \<open>FloraAdam: Adam with a randomly projected first moment\<close>

text \<open>
  A shallow embedding of \<^verbatim>\<open>pytorch_fob/optimizers/flora/optimizer.py\<close>.
  Floating-point numbers are idealised as reals: rounding, infinities and NaN are
  outside the model, and a quotient with divisor zero has HOL's value 0 where torch
  produces an infinity or NaN. Python exceptions are values of the type \<open>error\<close>;
  a function that can raise returns \<open>error + 'a\<close>, with \<open>Inl\<close> for the exception.
  A raised exception aborts the call: the model does not describe the partially
  mutated objects it leaves behind.
\<close>

subsection \<open>Errors\<close>

datatype error =
    KeyError string
  | TypeError
  | ValueError
  | IndexError
  | ZeroDivisionError
  | RuntimeError

definition ebind :: "error + 'a \<Rightarrow> ('a \<Rightarrow> error + 'b) \<Rightarrow> error + 'b" where
  "ebind m f = (case m of Inl e \<Rightarrow> Inl e | Inr x \<Rightarrow> f x)"

subsection \<open>Tensors\<close>

datatype device = CPU | CUDA nat

datatype dtype = Float16 | BFloat16 | Float32 | Float64

text \<open>
  A tensor is its shape and its entries in row-major order, together with the device
  and dtype it lives on.
\<close>

record tensor =
  shape :: "nat list"
  elems :: "real list"
  device :: device
  dtype :: dtype

definition numel :: "nat list \<Rightarrow> nat" where
  "numel sh = prod_list sh"

definition zeros :: "nat list \<Rightarrow> device \<Rightarrow> dtype \<Rightarrow> tensor" where
  "zeros sh dev dt = \<lparr>shape = sh, elems = replicate (numel sh) 0, device = dev, dtype = dt\<rparr>"

definition zeros_like :: "tensor \<Rightarrow> tensor" where
  "zeros_like t = zeros (shape t) (device t) (dtype t)"

subsection \<open>The torch runtime\<close>

text \<open>
  The library is not part of the repository. What the optimizer uses of it is taken as
  a parameter \<open>T\<close>: the generator objects (\<open>'g\<close> is a generator's internal state),
  the numbers a generator yields, the process-wide default generator, and the two
  tensor operations whose general form is not written out here (broadcasting an
  operand of a different shape, and matrix products other than 2-D by 2-D).
  \<open>randn_draw T g sh dt i\<close> is entry \<open>i\<close> of the tensor of shape \<open>sh\<close> that
  \<^verbatim>\<open>torch.randn\<close> draws from a generator in state \<open>g\<close>;
  \<open>randint_draw T g lo hi n i\<close> is entry \<open>i\<close> of the \<open>n\<close> integers that
  \<^verbatim>\<open>torch.randint(lo, hi, (n,))\<close> draws.
  \<^verbatim>\<open>manual_seed\<close> is taken as total: torch rejects a seed outside the 64-bit range.
\<close>

record 'g torch =
  Generator :: "device \<Rightarrow> 'g"
  manual_seed :: "'g \<Rightarrow> int \<Rightarrow> 'g"
  randn_draw :: "'g \<Rightarrow> nat list \<Rightarrow> dtype \<Rightarrow> nat \<Rightarrow> real"
  randint_draw :: "'g \<Rightarrow> int \<Rightarrow> int \<Rightarrow> nat \<Rightarrow> nat \<Rightarrow> int"
  advance :: "'g \<Rightarrow> nat \<Rightarrow> 'g"
  default_generator :: "'g"
  broadcast :: "tensor \<Rightarrow> nat list \<Rightarrow> (nat \<Rightarrow> real) option"
  matmul_nd :: "tensor \<Rightarrow> tensor \<Rightarrow> error + tensor"

text \<open>
  \<^verbatim>\<open>torch.randn(size, generator=..., device=..., dtype=...)\<close>: with a generator the
  numbers come from it (the generator object is advanced, the runtime is not touched);
  without one they come from the default generator, which is advanced.
\<close>

definition torch_randn ::
  "'g torch \<Rightarrow> nat list \<Rightarrow> 'g option \<Rightarrow> device \<Rightarrow> dtype \<Rightarrow> tensor \<times> 'g torch" where
  "torch_randn T sz generator dev dt =
     (case generator of
        Some g \<Rightarrow>
          (\<lparr>shape = sz, elems = map (randn_draw T g sz dt) [0..<numel sz],
            device = dev, dtype = dt\<rparr>, T)
      | None \<Rightarrow>
          (\<lparr>shape = sz,
            elems = map (randn_draw T (default_generator T) sz dt) [0..<numel sz],
            device = dev, dtype = dt\<rparr>,
           T\<lparr>default_generator := advance T (default_generator T) (numel sz)\<rparr>))"

definition torch_randint ::
  "'g torch \<Rightarrow> int \<Rightarrow> int \<Rightarrow> nat \<Rightarrow> 'g option \<Rightarrow> int list \<times> 'g torch" where
  "torch_randint T low high n generator =
     (case generator of
        Some g \<Rightarrow> (map (randint_draw T g low high n) [0..<n], T)
      | None \<Rightarrow>
          (map (randint_draw T (default_generator T) low high n) [0..<n],
           T\<lparr>default_generator := advance T (default_generator T) n\<rparr>))"

definition int64_max :: int where
  "int64_max = 2 ^ 63 - 1"

subsection \<open>Random generator and seed derivation\<close>

definition stable_randn ::
  "'g torch \<Rightarrow> nat list \<Rightarrow> int \<Rightarrow> device option \<Rightarrow> dtype \<Rightarrow> tensor \<times> 'g torch" where
  "stable_randn T sh seed dev dt =
     (let dev' = (case dev of None \<Rightarrow> CPU | Some d \<Rightarrow> d);
          generator = manual_seed T (Generator T dev') seed
      in torch_randn T sh (Some generator) dev' dt)"

text \<open>\<^verbatim>\<open>.tolist()[-1]\<close> raises IndexError on an empty list.\<close>

definition next_seed :: "'g torch \<Rightarrow> int \<Rightarrow> nat \<Rightarrow> (error + int) \<times> 'g torch" where
  "next_seed T seed adv =
     (let generator = manual_seed T (Generator T CPU) seed;
          (draws, T') = torch_randint T 0 int64_max adv (Some generator)
      in (if draws = [] then Inl IndexError else Inr (last draws), T'))"

definition split_seed :: "'g torch \<Rightarrow> int \<Rightarrow> (int \<times> int) \<times> 'g torch" where
  "split_seed T seed =
     (let generator = manual_seed T (Generator T CPU) seed;
          (draws, T') = torch_randint T 0 int64_max 2 (Some generator)
      in ((draws ! 0, draws ! 1), T'))"

subsection \<open>Parameter groups and the compression policy\<close>

record group =
  params :: "nat list"
  lr :: "real option"
  betas :: "real \<times> real"
  eps :: real
  rank :: "int option"
  kappa :: int

text \<open>Python's \<^verbatim>\<open>min\<close> and \<^verbatim>\<open>max\<close> of a tuple raise ValueError on the empty tuple.\<close>

fun py_min :: "nat list \<Rightarrow> error + nat" where
  "py_min [] = Inl ValueError"
| "py_min (x # xs) = Inr (fold min xs x)"

fun py_max :: "nat list \<Rightarrow> error + nat" where
  "py_max [] = Inl ValueError"
| "py_max (x # xs) = Inr (fold max xs x)"

text \<open>
  \<^verbatim>\<open>_should_compress\<close>: a chain of \<^verbatim>\<open>and\<close>, evaluated left to right and stopping at
  the first false operand. The quotient is Python's true division of two integers,
  which raises ZeroDivisionError on a zero divisor. Python rounds the quotient
  correctly, so the float compares with 4 as the exact quotient does unless the smaller
  extent reaches \<open>2 ^ 51\<close>; a shape with such an extent and a quotient above 4 has
  more than \<open>2 ^ 104\<close> entries, which no tensor has. The model takes the exact
  quotient.
\<close>

definition should_compress :: "group \<Rightarrow> nat list \<Rightarrow> error + bool" where
  "should_compress param_group param_shape =
     (let factored = (length param_shape = 2) in
      case rank param_group of
        None \<Rightarrow> Inr False
      | Some r \<Rightarrow>
          if \<not> r > 0 then Inr False
          else if \<not> factored then Inr False
          else ebind (py_min param_shape) (\<lambda>mn.
            if \<not> int mn \<ge> r then Inr False
            else ebind (py_max param_shape) (\<lambda>mx.
              ebind (py_min param_shape) (\<lambda>mn'.
                if mn' = 0 then Inl ZeroDivisionError
                else Inr (real mx / real mn' \<le> 4)))))"

text \<open>The policy as the specification words it.\<close>

definition spec_should_compress :: "int option \<Rightarrow> nat list \<Rightarrow> bool" where
  "spec_should_compress rk sh =
     (rk \<noteq> None \<and> the rk > 0 \<and> length sh = 2 \<and> int (Min (set sh)) \<ge> the rk
      \<and> real (Max (set sh)) / real (Min (set sh)) \<le> 4)"

subsection \<open>Tensor operations\<close>

text \<open>
  An in-place operation sees another operand through the shape of the tensor it
  updates: entry by entry when the shapes agree, through torch's broadcasting when they
  do not (RuntimeError where torch cannot broadcast). Device and dtype mismatches are
  not modelled.
\<close>

definition operand :: "'g torch \<Rightarrow> tensor \<Rightarrow> tensor \<Rightarrow> error + real list" where
  "operand T self other =
     (if shape other = shape self then Inr (elems other)
      else case broadcast T other (shape self) of
             None \<Rightarrow> Inl RuntimeError
           | Some f \<Rightarrow> Inr (map f [0..<numel (shape self)]))"

definition mul_inplace :: "tensor \<Rightarrow> real \<Rightarrow> tensor" where
  "mul_inplace self c = self\<lparr>elems := map (\<lambda>x. x * c) (elems self)\<rparr>"

definition add_inplace :: "'g torch \<Rightarrow> tensor \<Rightarrow> tensor \<Rightarrow> real \<Rightarrow> error + tensor" where
  "add_inplace T self other alpha =
     ebind (operand T self other) (\<lambda>ys.
       Inr (self\<lparr>elems := map2 (\<lambda>x y. x + alpha * y) (elems self) ys\<rparr>))"

definition addcmul_inplace ::
  "'g torch \<Rightarrow> tensor \<Rightarrow> tensor \<Rightarrow> tensor \<Rightarrow> real \<Rightarrow> error + tensor" where
  "addcmul_inplace T self t1 t2 val =
     ebind (operand T self t1) (\<lambda>xs. ebind (operand T self t2) (\<lambda>ys.
       Inr (self\<lparr>elems := map2 (\<lambda>s (x, y). s + val * x * y) (elems self) (zip xs ys)\<rparr>)))"

definition addcdiv_inplace ::
  "'g torch \<Rightarrow> tensor \<Rightarrow> tensor \<Rightarrow> tensor \<Rightarrow> real \<Rightarrow> error + tensor" where
  "addcdiv_inplace T self t1 t2 val =
     ebind (operand T self t1) (\<lambda>xs. ebind (operand T self t2) (\<lambda>ys.
       Inr (self\<lparr>elems := map2 (\<lambda>s (x, y). s + val * (x / y)) (elems self) (zip xs ys)\<rparr>)))"

definition copy_inplace :: "'g torch \<Rightarrow> tensor \<Rightarrow> tensor \<Rightarrow> error + tensor" where
  "copy_inplace T self src = ebind (operand T self src) (\<lambda>ys. Inr (self\<lparr>elems := ys\<rparr>))"

definition div_scalar :: "tensor \<Rightarrow> real \<Rightarrow> tensor" where
  "div_scalar a c = a\<lparr>elems := map (\<lambda>x. x / c) (elems a)\<rparr>"

definition sqrt_t :: "tensor \<Rightarrow> tensor" where
  "sqrt_t a = a\<lparr>elems := map sqrt (elems a)\<rparr>"

definition add_scalar_inplace :: "tensor \<Rightarrow> real \<Rightarrow> tensor" where
  "add_scalar_inplace self c = self\<lparr>elems := map (\<lambda>x. x + c) (elems self)\<rparr>"

text \<open>
  \<^verbatim>\<open>a @ b\<close>: written out for two matrices, where the inner extents must agree; every
  other combination of dimensions is the runtime's.
\<close>

definition matmul :: "'g torch \<Rightarrow> tensor \<Rightarrow> tensor \<Rightarrow> error + tensor" where
  "matmul T a b =
     (if length (shape a) = 2 \<and> length (shape b) = 2 then
        (let m = shape a ! 0; k = shape a ! 1; k' = shape b ! 0; n = shape b ! 1 in
         if k = k' then
           Inr \<lparr>shape = [m, n],
                elems = map (\<lambda>idx. \<Sum>l\<leftarrow>[0..<k].
                               elems a ! (idx div n * k + l) * elems b ! (l * n + idx mod n))
                          [0..<m * n],
                device = device a, dtype = dtype a\<rparr>
         else Inl RuntimeError)
      else matmul_nd T a b)"

text \<open>
  \<^verbatim>\<open>a.t()\<close>: transposes a matrix, returns a tensor of fewer dimensions as it is and
  raises on more than two.
\<close>

definition tensor_t :: "tensor \<Rightarrow> error + tensor" where
  "tensor_t a =
     (if length (shape a) = 2 then
        (let m = shape a ! 0; n = shape a ! 1 in
         Inr (a\<lparr>shape := [n, m],
                elems := map (\<lambda>idx. elems a ! (idx mod m * n + idx div m)) [0..<n * m]\<rparr>))
      else if length (shape a) < 2 then Inr a
      else Inl RuntimeError)"

text \<open>\<^verbatim>\<open>shape[0]\<close> and \<^verbatim>\<open>shape[-1]\<close> raise IndexError on the empty shape.\<close>

definition dim_first :: "nat list \<Rightarrow> error + nat" where
  "dim_first sh = (case sh of [] \<Rightarrow> Inl IndexError | d # _ \<Rightarrow> Inr d)"

definition dim_last :: "nat list \<Rightarrow> error + nat" where
  "dim_last sh = (if sh = [] then Inl IndexError else Inr (last sh))"

subsection \<open>Projection operators\<close>

text \<open>
  The expression \<^verbatim>\<open>stable_randn(shape, seed=s, device=d, dtype=t) / math.sqrt(rank)\<close>,
  which the source writes four times. One extent of the shape is the rank, so a
  negative rank is refused by \<^verbatim>\<open>torch.randn\<close> before \<^verbatim>\<open>math.sqrt\<close> is reached.
  The callers do not thread the runtime: \<open>stable_randn\<close> and \<open>split_seed\<close> return
  it as they found it.
\<close>

definition projection ::
  "'g torch \<Rightarrow> int \<Rightarrow> nat list \<Rightarrow> int \<Rightarrow> device \<Rightarrow> dtype \<Rightarrow> error + tensor" where
  "projection T rk sh seed dev dt =
     (if rk < 0 then Inl RuntimeError
      else Inr (div_scalar (fst (stable_randn T sh seed (Some dev) dt)) (sqrt (real_of_int rk))))"

definition down_proj :: "'g torch \<Rightarrow> int \<Rightarrow> int \<Rightarrow> tensor \<Rightarrow> error + tensor" where
  "down_proj T seed rk tensor =
     (let (lseed, rseed) = fst (split_seed T seed) in
      ebind (dim_first (shape tensor)) (\<lambda>d0. ebind (dim_last (shape tensor)) (\<lambda>dl.
        if d0 < dl then
          ebind (projection T rk [nat rk, d0] lseed (device tensor) (dtype tensor))
            (\<lambda>left_projection. matmul T left_projection tensor)
        else
          ebind (projection T rk [dl, nat rk] rseed (device tensor) (dtype tensor))
            (\<lambda>right_projection. matmul T tensor right_projection))))"

definition up_proj :: "'g torch \<Rightarrow> int \<Rightarrow> int \<Rightarrow> nat list \<Rightarrow> tensor \<Rightarrow> error + tensor" where
  "up_proj T seed rk sh ctensor =
     (let (lseed, rseed) = fst (split_seed T seed) in
      ebind (dim_first sh) (\<lambda>d0. ebind (dim_last sh) (\<lambda>dl.
        if d0 < dl then
          ebind (projection T rk [nat rk, d0] lseed (device ctensor) (dtype ctensor))
            (\<lambda>left_projection. ebind (tensor_t left_projection) (\<lambda>lt. matmul T lt ctensor))
        else
          ebind (projection T rk [dl, nat rk] rseed (device ctensor) (dtype ctensor))
            (\<lambda>right_projection. ebind (tensor_t right_projection) (\<lambda>rt. matmul T ctensor rt)))))"

subsection \<open>Parameters and their optimizer state\<close>

record param =
  p_data :: tensor
  p_grad :: "tensor option"
  requires_grad :: bool

text \<open>The per-parameter dictionary: a key that is absent is \<open>None\<close>.\<close>

record pstate =
  st_seed :: "int option"
  st_step :: "nat option"
  st_exp_avg :: "tensor option"
  st_exp_avg_sq :: "tensor option"

definition empty_state :: pstate where
  "empty_state = \<lparr>st_seed = None, st_step = None, st_exp_avg = None, st_exp_avg_sq = None\<rparr>"

text \<open>State initialization (source lines 98 to 117).\<close>

definition init_state :: "group \<Rightarrow> param \<Rightarrow> tensor \<Rightarrow> bool \<Rightarrow> pstate \<Rightarrow> error + pstate" where
  "init_state grp p grad sc st =
     (let nonempty = (st \<noteq> empty_state) in
      if (nonempty \<and> st_step st = None) \<or> \<not> nonempty then
        (let st1 = st\<lparr>st_step := Some 0\<rparr> in
         if sc then
           ebind (dim_first (shape grad)) (\<lambda>d0. ebind (dim_last (shape grad)) (\<lambda>dl.
             case rank grp of
               None \<Rightarrow> Inl TypeError
             | Some r \<Rightarrow>
                 if r < 0 then Inl RuntimeError
                 else
                   (let cshape = (if d0 < dl then [nat r, dl] else [d0, nat r]) in
                    Inr (st1\<lparr>st_exp_avg := Some (zeros cshape (device grad) (dtype grad)),
                              st_exp_avg_sq := Some (zeros_like (p_data p))\<rparr>))))
         else
           Inr (st1\<lparr>st_exp_avg := Some (zeros_like (p_data p)),
                     st_exp_avg_sq := Some (zeros_like (p_data p))\<rparr>))
      else Inr st)"

text \<open>
  The compressed branch (source lines 123 to 202); \<open>t\<close> is the step counter after its
  increment and \<open>st\<close> the state holding it.
\<close>

definition compressed_path ::
  "'g torch \<Rightarrow> group \<Rightarrow> param \<Rightarrow> tensor \<Rightarrow> tensor \<Rightarrow> tensor \<Rightarrow> nat \<Rightarrow> pstate
     \<Rightarrow> error + (param \<times> pstate)" where
  "compressed_path T grp p grad exp_avg exp_avg_sq t st =
     (let (beta1, beta2) = betas grp in
      case st_seed st of
        None \<Rightarrow> Inl (KeyError ''seed'')
      | Some current_seed \<Rightarrow>
      case rank grp of
        None \<Rightarrow> Inl TypeError
      | Some rk \<Rightarrow>
      ebind (down_proj T current_seed rk grad) (\<lambda>cgrad.
      ebind (add_inplace T (mul_inplace exp_avg beta1) cgrad (1 - beta1)) (\<lambda>exp_avg1.
      ebind (addcmul_inplace T (mul_inplace exp_avg_sq beta2) grad grad (1 - beta2)) (\<lambda>exp_avg_sq1.
      (let bias_correction1 = 1 - beta1 ^ t;
           bias_correction2 = 1 - beta2 ^ t;
           corrected_avg = div_scalar exp_avg1 bias_correction1;
           corrected_avg_sq = div_scalar exp_avg_sq1 bias_correction2;
           denom = add_scalar_inplace (sqrt_t corrected_avg_sq) (eps grp)
       in
       ebind (up_proj T current_seed rk (shape grad) corrected_avg) (\<lambda>upd.
       case lr grp of
         None \<Rightarrow> Inl TypeError
       | Some lr' \<Rightarrow>
       ebind (addcdiv_inplace T (p_data p) upd denom (- lr')) (\<lambda>pd.
       (let p1 = p\<lparr>p_data := pd\<rparr>;
            st1 = st\<lparr>st_exp_avg := Some exp_avg1, st_exp_avg_sq := Some exp_avg_sq1\<rparr>
        in
        if kappa grp = 0 then Inl ZeroDivisionError
        else if int t mod kappa grp = 0 then
          ebind (fst (next_seed T current_seed 15)) (\<lambda>nxt.
          ebind (up_proj T current_seed rk (shape grad) exp_avg1) (\<lambda>full.
          ebind (down_proj T nxt rk full) (\<lambda>re.
          ebind (copy_inplace T exp_avg1 re) (\<lambda>exp_avg2.
            Inr (p1, st1\<lparr>st_exp_avg := Some exp_avg2, st_seed := Some nxt\<rparr>)))))
        else Inr (p1, st1)))))))))"

text \<open>The full branch (source lines 204 to 218).\<close>

definition full_path ::
  "'g torch \<Rightarrow> group \<Rightarrow> param \<Rightarrow> tensor \<Rightarrow> tensor \<Rightarrow> tensor \<Rightarrow> nat \<Rightarrow> pstate
     \<Rightarrow> error + (param \<times> pstate)" where
  "full_path T grp p grad exp_avg exp_avg_sq t st =
     (let (beta1, beta2) = betas grp in
      ebind (add_inplace T (mul_inplace exp_avg beta1) grad (1 - beta1)) (\<lambda>exp_avg1.
      ebind (addcmul_inplace T (mul_inplace exp_avg_sq beta2) grad grad (1 - beta2)) (\<lambda>exp_avg_sq1.
      (let bias_correction1 = 1 - beta1 ^ t;
           bias_correction2 = 1 - beta2 ^ t;
           corrected_avg = div_scalar exp_avg1 bias_correction1;
           corrected_avg_sq = div_scalar exp_avg_sq1 bias_correction2;
           denom = add_scalar_inplace (sqrt_t corrected_avg_sq) (eps grp)
       in
       case lr grp of
         None \<Rightarrow> Inl TypeError
       | Some lr' \<Rightarrow>
       ebind (addcdiv_inplace T (p_data p) corrected_avg denom (- lr')) (\<lambda>pd.
         Inr (p\<lparr>p_data := pd\<rparr>,
              st\<lparr>st_exp_avg := Some exp_avg1, st_exp_avg_sq := Some exp_avg_sq1\<rparr>))))))"

text \<open>
  The body of the loop over the parameters of a group, for a parameter whose gradient
  is \<open>grad\<close> (source lines 92 to 218).
\<close>

definition update_param ::
  "'g torch \<Rightarrow> group \<Rightarrow> param \<Rightarrow> tensor \<Rightarrow> pstate \<Rightarrow> error + (param \<times> pstate)" where
  "update_param T grp p grad st =
     ebind (should_compress grp (shape grad)) (\<lambda>sc.
     ebind (init_state grp p grad sc st) (\<lambda>st1.
       case st_exp_avg st1 of
         None \<Rightarrow> Inl (KeyError ''exp_avg'')
       | Some exp_avg \<Rightarrow>
       case st_exp_avg_sq st1 of
         None \<Rightarrow> Inl (KeyError ''exp_avg_sq'')
       | Some exp_avg_sq \<Rightarrow>
       case st_step st1 of
         None \<Rightarrow> Inl (KeyError ''step'')
       | Some n \<Rightarrow>
           (let t = n + 1; st2 = st1\<lparr>st_step := Some t\<rparr> in
            if sc then compressed_path T grp p grad exp_avg exp_avg_sq t st2
            else full_path T grp p grad exp_avg exp_avg_sq t st2)))"

subsection \<open>The optimizer\<close>

text \<open>
  Parameters are objects: a handle names one, \<open>store\<close> holds what the handles point
  to, and the optimizer's \<open>state\<close> is a dictionary created on first access, keyed by
  handle.
\<close>

type_synonym store = "nat \<Rightarrow> param"

record optimizer =
  param_groups :: "group list"
  state :: "nat \<Rightarrow> pstate option"

definition get_state :: "(nat \<Rightarrow> pstate option) \<Rightarrow> nat \<Rightarrow> pstate" where
  "get_state sts h = (case sts h of None \<Rightarrow> empty_state | Some st \<Rightarrow> st)"

fun step_params ::
  "'g torch \<Rightarrow> group \<Rightarrow> nat list \<Rightarrow> (nat \<Rightarrow> pstate option) \<times> store
     \<Rightarrow> error + ((nat \<Rightarrow> pstate option) \<times> store)" where
  "step_params T grp [] s = Inr s"
| "step_params T grp (h # hs) (sts, ps) =
     (case p_grad (ps h) of
        None \<Rightarrow> step_params T grp hs (sts, ps)
      | Some grad \<Rightarrow>
          (case update_param T grp (ps h) grad (get_state sts h) of
             Inl e \<Rightarrow> Inl e
           | Inr (p', st') \<Rightarrow> step_params T grp hs (sts(h \<mapsto> st'), ps(h := p'))))"

fun step_groups ::
  "'g torch \<Rightarrow> group list \<Rightarrow> (nat \<Rightarrow> pstate option) \<times> store
     \<Rightarrow> error + ((nat \<Rightarrow> pstate option) \<times> store)" where
  "step_groups T [] s = Inr s"
| "step_groups T (grp # grps) s =
     (case step_params T grp (params grp) s of
        Inl e \<Rightarrow> Inl e
      | Inr s' \<Rightarrow> step_groups T grps s')"

text \<open>
  The closure, when given, recomputes the loss and with it the gradients of the
  parameters.
\<close>

definition run_closure :: "(store \<Rightarrow> real \<times> store) option \<Rightarrow> store \<Rightarrow> real option \<times> store" where
  "run_closure closure ps =
     (case closure of None \<Rightarrow> (None, ps) | Some c \<Rightarrow> (Some (fst (c ps)), snd (c ps)))"

definition step ::
  "'g torch \<Rightarrow> (store \<Rightarrow> real \<times> store) option \<Rightarrow> optimizer \<Rightarrow> store
     \<Rightarrow> error + (real option \<times> optimizer \<times> store)" where
  "step T closure self ps =
     (let (loss, ps1) = run_closure closure ps in
      case step_groups T (param_groups self) (state self, ps1) of
        Inl e \<Rightarrow> Inl e
      | Inr (sts, ps2) \<Rightarrow> Inr (loss, self\<lparr>state := sts\<rparr>, ps2))"

subsection \<open>Construction\<close>

text \<open>
  The base class constructor \<^verbatim>\<open>torch.optim.Optimizer.__init__\<close>: the parameters come
  as a sequence of tensors (one group) or of group dictionaries; an empty sequence is
  refused, every group is completed with the defaults, and a parameter may not appear
  in two groups. It looks at no option's value.
\<close>

record group_arg =
  ga_params :: "nat list"
  ga_lr :: "real option option"
  ga_betas :: "(real \<times> real) option"
  ga_eps :: "real option"
  ga_rank :: "int option option"
  ga_kappa :: "int option"

datatype params_arg = Tensors "nat list" | Groups "group_arg list"

definition setdefaults :: "group \<Rightarrow> group_arg \<Rightarrow> group" where
  "setdefaults defaults a =
     \<lparr>params = ga_params a,
      lr = (case ga_lr a of None \<Rightarrow> lr defaults | Some v \<Rightarrow> v),
      betas = (case ga_betas a of None \<Rightarrow> betas defaults | Some v \<Rightarrow> v),
      eps = (case ga_eps a of None \<Rightarrow> eps defaults | Some v \<Rightarrow> v),
      rank = (case ga_rank a of None \<Rightarrow> rank defaults | Some v \<Rightarrow> v),
      kappa = (case ga_kappa a of None \<Rightarrow> kappa defaults | Some v \<Rightarrow> v)\<rparr>"

fun add_param_groups :: "group \<Rightarrow> group_arg list \<Rightarrow> group list \<Rightarrow> error + group list" where
  "add_param_groups defaults [] acc = Inr acc"
| "add_param_groups defaults (a # as) acc =
     (if list_ex (\<lambda>h. h \<in> set (concat (map params acc))) (ga_params a)
      then Inl ValueError
      else add_param_groups defaults as (acc @ [setdefaults defaults a]))"

definition no_overrides :: "nat list \<Rightarrow> group_arg" where
  "no_overrides hs =
     \<lparr>ga_params = hs, ga_lr = None, ga_betas = None, ga_eps = None, ga_rank = None,
      ga_kappa = None\<rparr>"

definition Optimizer_init :: "params_arg \<Rightarrow> group \<Rightarrow> error + optimizer" where
  "Optimizer_init ps defaults =
     (let args = (case ps of Tensors hs \<Rightarrow> (if hs = [] then [] else [no_overrides hs])
                           | Groups gs \<Rightarrow> gs)
      in if args = [] then Inl ValueError
         else ebind (add_param_groups defaults args [])
                (\<lambda>grps. Inr \<lparr>param_groups = grps, state = (\<lambda>h. None)\<rparr>))"

text \<open>The loop of \<^verbatim>\<open>FloraAdam.__init__\<close> (source lines 59 to 64).\<close>

fun assign_seeds_params ::
  "store \<Rightarrow> nat list \<Rightarrow> int \<times> (nat \<Rightarrow> pstate option) \<Rightarrow> int \<times> (nat \<Rightarrow> pstate option)" where
  "assign_seeds_params ps [] acc = acc"
| "assign_seeds_params ps (h # hs) (params_idx, sts) =
     (let params_idx' = params_idx + 1 in
      assign_seeds_params ps hs
        (params_idx',
         if requires_grad (ps h)
         then sts(h \<mapsto> (get_state sts h)\<lparr>st_seed := Some params_idx'\<rparr>)
         else sts))"

fun assign_seeds ::
  "store \<Rightarrow> group list \<Rightarrow> int \<times> (nat \<Rightarrow> pstate option) \<Rightarrow> int \<times> (nat \<Rightarrow> pstate option)" where
  "assign_seeds ps [] acc = acc"
| "assign_seeds ps (grp # grps) acc = assign_seeds ps grps (assign_seeds_params ps (params grp) acc)"

definition FloraAdam_init ::
  "store \<Rightarrow> params_arg \<Rightarrow> real option \<Rightarrow> real \<times> real \<Rightarrow> real \<Rightarrow> int option \<Rightarrow> int \<Rightarrow> int
     \<Rightarrow> error + optimizer" where
  "FloraAdam_init ps prms lr' betas' eps' rank' kappa' seed =
     (let defaults = \<lparr>params = [], lr = lr', betas = betas', eps = eps', rank = rank',
                      kappa = kappa'\<rparr>
      in ebind (Optimizer_init prms defaults) (\<lambda>self.
           Inr (self\<lparr>state := snd (assign_seeds ps (param_groups self) (seed, state self))\<rparr>)))"

subsection \<open>Sequences of updates of one parameter\<close>

text \<open>
  The training loop sets a parameter's gradient and takes a step, again and again.
  \<open>updates\<close> runs the loop body of \<open>step\<close> for one parameter on a sequence of
  gradients and returns the parameter's state after each update.
\<close>

fun updates :: "'g torch \<Rightarrow> group \<Rightarrow> tensor list \<Rightarrow> param \<Rightarrow> pstate \<Rightarrow> error + pstate list" where
  "updates T grp [] p st = Inr []"
| "updates T grp (grad # grads) p st =
     (case update_param T grp (p\<lparr>p_grad := Some grad\<rparr>) grad st of
        Inl e \<Rightarrow> Inl e
      | Inr (p', st') \<Rightarrow>
          (case updates T grp grads p' st' of
             Inl e \<Rightarrow> Inl e
           | Inr sts \<Rightarrow> Inr (st' # sts)))"

subsection \<open>The operations as the specification words them\<close>

text \<open>
  The generator seeded with a seed, the two seeds that \<open>split_seed\<close> derives, the seed
  that \<open>next_seed\<close> derives with its default advance of 15, the entries of the two
  projection matrices, and a parameter's step counter, which is 0 before its state is
  initialized.
\<close>

definition seeded :: "'g torch \<Rightarrow> device \<Rightarrow> int \<Rightarrow> 'g" where
  "seeded T dev seed = manual_seed T (Generator T dev) seed"

definition left_seed :: "'g torch \<Rightarrow> int \<Rightarrow> int" where
  "left_seed T seed = randint_draw T (seeded T CPU seed) 0 int64_max 2 0"

definition right_seed :: "'g torch \<Rightarrow> int \<Rightarrow> int" where
  "right_seed T seed = randint_draw T (seeded T CPU seed) 0 int64_max 2 1"

definition left_matrix ::
  "'g torch \<Rightarrow> int \<Rightarrow> nat \<Rightarrow> nat \<Rightarrow> device \<Rightarrow> dtype \<Rightarrow> nat \<Rightarrow> nat \<Rightarrow> real" where
  "left_matrix T seed r m dev dt i l =
     randn_draw T (seeded T dev (left_seed T seed)) [r, m] dt (i * m + l) / sqrt (real r)"

definition right_matrix ::
  "'g torch \<Rightarrow> int \<Rightarrow> nat \<Rightarrow> nat \<Rightarrow> device \<Rightarrow> dtype \<Rightarrow> nat \<Rightarrow> nat \<Rightarrow> real" where
  "right_matrix T seed r n dev dt l j =
     randn_draw T (seeded T dev (right_seed T seed)) [n, r] dt (l * r + j) / sqrt (real r)"

definition rotated :: "'g torch \<Rightarrow> int \<Rightarrow> int" where
  "rotated T seed = randint_draw T (seeded T CPU seed) 0 int64_max 15 14"

definition step_count :: "pstate \<Rightarrow> nat" where
  "step_count st = (case st_step st of None \<Rightarrow> 0 | Some n \<Rightarrow> n)"

text \<open>
  The seeds a compressed parameter holds after each of \<open>m\<close> further updates, when the
  seed is replaced exactly on the updates whose incremented counter is a multiple of
  kappa.
\<close>

fun seed_trace :: "'g torch \<Rightarrow> int \<Rightarrow> int \<Rightarrow> nat \<Rightarrow> nat \<Rightarrow> int list" where
  "seed_trace T k s n 0 = []"
| "seed_trace T k s n (Suc m) =
     (let s' = (if int (n + 1) mod k = 0 then rotated T s else s)
      in s' # seed_trace T k s' (n + 1) m)"

text \<open>
  Entry \<open>(i, j)\<close> of a matrix, and what it is for a tensor to be the product of two
  matrices given by their entries.
\<close>

definition entry :: "tensor \<Rightarrow> nat \<Rightarrow> nat \<Rightarrow> real" where
  "entry X i j = elems X ! (i * (shape X ! 1) + j)"

definition is_product ::
  "tensor \<Rightarrow> nat \<Rightarrow> nat \<Rightarrow> nat \<Rightarrow> (nat \<Rightarrow> nat \<Rightarrow> real) \<Rightarrow> (nat \<Rightarrow> nat \<Rightarrow> real) \<Rightarrow> bool" where
  "is_product Y m k n A B =
     (shape Y = [m, n] \<and> length (elems Y) = m * n
      \<and> (\<forall>i<m. \<forall>j<n. entry Y i j = (\<Sum>l\<leftarrow>[0..<k]. A i l * B l j)))"

text \<open>
  The shape in which the compressed first moment is allocated: the rank replaces the
  narrower axis of the gradient's shape.
\<close>

definition compressed_shape :: "int \<Rightarrow> nat list \<Rightarrow> nat list" where
  "compressed_shape r sh = (if hd sh < last sh then [nat r, last sh] else [hd sh, nat r])"

subsection \<open>Adam as the specification words it\<close>




subsection \<open>What the constructor accepts\<close>

text \<open>
  The parameters of a construction in iteration order, and the two conditions the base
  class puts on them: the sequence is not empty, and no parameter is in two groups.
\<close>

fun flat_params :: "params_arg \<Rightarrow> nat list" where
  "flat_params (Tensors hs) = hs"
| "flat_params (Groups gs) = concat (map ga_params gs)"

fun groups_disjoint :: "nat list list \<Rightarrow> bool" where
  "groups_disjoint [] = True"
| "groups_disjoint (xs # xss) = (set xs \<inter> set (concat xss) = {} \<and> groups_disjoint xss)"

definition params_accepted :: "params_arg \<Rightarrow> bool" where
  "params_accepted prms =
     (case prms of
        Tensors hs \<Rightarrow> hs \<noteq> []
      | Groups gs \<Rightarrow> gs \<noteq> [] \<and> groups_disjoint (map ga_params gs))"

subsection \<open>Concrete inputs\<close>

text \<open>
  A runtime whose generator state is the seed itself, whose normal draws are the state
  plus the entry's index and whose integer draws count up from the state; a group with
  rank 1 and kappa 4; a 1-by-1 parameter with a zero gradient and the seed 7.
\<close>

definition T0 :: "int torch" where
  "T0 = \<lparr>Generator = (\<lambda>d. 0), manual_seed = (\<lambda>g s. s),
          randn_draw = (\<lambda>g sh dt i. real_of_int g + real i),
          randint_draw = (\<lambda>g lo hi n i. g + int i + 1),
          advance = (\<lambda>g n. g + int n), default_generator = 0,
          broadcast = (\<lambda>t sh. None), matmul_nd = (\<lambda>a b. Inl RuntimeError)\<rparr>"

definition g0 :: group where
  "g0 = \<lparr>params = [0, 1], lr = Some 1, betas = (1/2, 1/2), eps = 1, rank = Some 1, kappa = 4\<rparr>"

definition X0 :: tensor where
  "X0 = \<lparr>shape = [1, 1], elems = [0], device = CPU, dtype = Float32\<rparr>"

definition p0 :: param where
  "p0 = \<lparr>p_data = X0\<lparr>elems := [3]\<rparr>, p_grad = Some X0, requires_grad = True\<rparr>"

definition st0 :: pstate where
  "st0 = empty_state\<lparr>st_seed := Some 7\<rparr>"

definition S0 :: "int \<Rightarrow> nat \<Rightarrow> pstate" where
  "S0 s n = \<lparr>st_seed = Some s, st_step = Some n, st_exp_avg = Some X0, st_exp_avg_sq = Some X0\<rparr>"

definition Xw :: tensor where
  "Xw = \<lparr>shape = [1, 2], elems = [3, 4], device = CPU, dtype = Float32\<rparr>"

definition Xt :: tensor where
  "Xt = \<lparr>shape = [2, 1], elems = [3, 4], device = CPU, dtype = Float32\<rparr>"

definition store0 :: store where
  "store0 = (\<lambda>h. if h = 0 then p0 else p0\<lparr>p_grad := None, requires_grad := (h = 2)\<rparr>)"

definition opt0 :: optimizer where
  "opt0 = \<lparr>param_groups = [g0], state = (\<lambda>h. if h = 0 then Some st0 else None)\<rparr>"

definition prms0 :: params_arg where
  "prms0 = Groups [no_overrides [0, 1], no_overrides [2]]"


definition gA :: group where
  "gA = g0\<lparr>rank := None, kappa := 2\<rparr>"

definition gB :: group where
  "gB = g0\<lparr>kappa := 2\<rparr>"



definition gD :: group where
  "gD = g0\<lparr>params := [0, 0]\<rparr>"

definition optD :: optimizer where
  "optD = \<lparr>param_groups = [gD], state = (\<lambda>h. if h = 0 then Some st0 else None)\<rparr>"



section \<open>Properties\<close>

lemma ebind_simps [simp]:
  "ebind (Inl e) f = Inl e"
  "ebind (Inr x) f = f x"
  by (simp_all add: ebind_def)

lemma upt_2: "[0..<2] = [0, Suc 0]"
  by (simp add: numeral_2_eq_2)

lemma fold_min_Min: "fold min xs (x::nat) = Min (set (x # xs))"
  by (rule Min.set_eq_fold [symmetric])

lemma fold_max_Max: "fold max xs (x::nat) = Max (set (x # xs))"
  by (rule Max.set_eq_fold [symmetric])

lemma py_min_Min: "xs \<noteq> [] \<Longrightarrow> py_min xs = Inr (Min (set xs))"
  by (cases xs) (simp_all only: py_min.simps fold_min_Min, simp)

lemma py_max_Max: "xs \<noteq> [] \<Longrightarrow> py_max xs = Inr (Max (set xs))"
  by (cases xs) (simp_all only: py_max.simps fold_max_Max, simp)

lemma should_compress_spec:
  "should_compress g' sh' = Inr (spec_should_compress (rank g') sh')"
proof (cases "rank g'")
  case None
  then show ?thesis by (simp add: should_compress_def spec_should_compress_def)
next
  case (Some r)
  show ?thesis
  proof (cases "r > 0 \<and> length sh' = 2")
    case False
    then show ?thesis using Some
      by (auto simp: should_compress_def spec_should_compress_def)
  next
    case True
    then have ne: "sh' \<noteq> []" by auto
    show ?thesis
    proof (cases "int (Min (set sh')) \<ge> r")
      case False
      then show ?thesis using Some True ne
        by (simp add: should_compress_def spec_should_compress_def py_min_Min)
    next
      case ge: True
      with True have "Min (set sh') \<noteq> 0" by auto
      then show ?thesis using Some True ne ge
        by (simp add: should_compress_def spec_should_compress_def py_min_Min py_max_Max)
    qed
  qed
qed

text \<open>
  C1. For every parameter group and gradient shape, \<open>should_compress\<close> returns, without
  raising, true if and only if the group's rank is configured and positive, the shape
  has exactly two dimensions, its least extent is at least the rank, and the quotient
  of its greatest and least extent is at most 4. With rank 8 the shape (4096,128) is
  refused and the shape (256,64) is accepted.
\<close>

theorem should_compress_iff:
  "should_compress g sh = Inr (spec_should_compress (rank g) sh)
   \<and> (rank g = Some 8 \<longrightarrow> should_compress g [4096, 128] = Inr False
                          \<and> should_compress g [256, 64] = Inr True)"
proof -
  have a: "spec_should_compress (Some 8) [4096, 128] = False"
    by (simp add: spec_should_compress_def)
  have b: "spec_should_compress (Some 8) [256, 64] = True"
    by (simp add: spec_should_compress_def)
  show ?thesis using a b by (simp add: should_compress_spec)
qed

theorem should_compress_iff_witness:
  "rank g0 = Some 1 \<and> should_compress g0 [2, 8] = Inr True
   \<and> should_compress g0 [2, 9] = Inr False
   \<and> should_compress (g0\<lparr>rank := Some 8\<rparr>) [4096, 128] = Inr False
   \<and> should_compress (g0\<lparr>rank := Some 8\<rparr>) [256, 64] = Inr True"
  using should_compress_iff[of g0 "[2, 8]"] should_compress_iff[of g0 "[2, 9]"]
    should_compress_iff[of "g0\<lparr>rank := Some 8\<rparr>" "[]"]
  by (simp add: spec_should_compress_def g0_def)

subsection \<open>The random generator and the seeds\<close>

lemma stable_randn_runtime: "snd (stable_randn T sh seed dev dt) = T"
  by (simp add: stable_randn_def torch_randn_def Let_def)

lemma split_seed_runtime: "snd (split_seed T seed) = T"
  by (simp add: split_seed_def torch_randint_def Let_def)

lemma next_seed_runtime: "snd (next_seed T seed adv) = T"
  by (simp add: next_seed_def torch_randint_def Let_def)

text \<open>Without a generator of its own, \<^verbatim>\<open>torch.randn\<close> does advance the default one.\<close>

lemma torch_randn_ambient:
  "default_generator (snd (torch_randn T sh None dev dt))
     = advance T (default_generator T) (numel sh)"
  by (simp add: torch_randn_def)

text \<open>
  C8. Two calls of \<open>stable_randn\<close> with the same shape, seed, device and dtype return
  the same tensor, whatever the state of the default generator, and the call leaves the
  runtime, the default generator included, as it found it: the entries are the draws of
  a generator of its own, seeded with the given seed.
\<close>

theorem stable_randn_private:
  "fst (stable_randn (snd (stable_randn T sh seed dev dt)) sh seed dev dt)
     = fst (stable_randn T sh seed dev dt)
   \<and> snd (stable_randn T sh seed dev dt) = T
   \<and> fst (stable_randn (T\<lparr>default_generator := g'\<rparr>) sh seed dev dt)
     = fst (stable_randn T sh seed dev dt)
   \<and> elems (fst (stable_randn T sh seed dev dt))
     = map (randn_draw T (seeded T (case dev of None \<Rightarrow> CPU | Some d \<Rightarrow> d) seed) sh dt)
         [0..<numel sh]"
  by (simp add: stable_randn_def torch_randn_def Let_def seeded_def)

theorem stable_randn_private_witness:
  "fst (stable_randn (T0\<lparr>default_generator := 99\<rparr>) [2, 1] 5 None Float32)
     = \<lparr>shape = [2, 1], elems = [5, 6], device = CPU, dtype = Float32\<rparr>
   \<and> snd (stable_randn T0 [2, 1] 5 None Float32) = T0"
  using stable_randn_private[of T0 "[2, 1]" 5 None Float32 99]
  by (simp add: T0_def numel_def seeded_def stable_randn_def torch_randn_def upt_2)

subsection \<open>Projection operators\<close>

lemma split_seed_value: "fst (split_seed T seed) = (left_seed T seed, right_seed T seed)"
  by (simp add: split_seed_def torch_randint_def Let_def left_seed_def right_seed_def
      seeded_def upt_2)

lemma projection_value:
  "0 \<le> rk \<Longrightarrow> projection T rk sh seed dev dt =
     Inr \<lparr>shape = sh,
          elems = map (\<lambda>i. randn_draw T (seeded T dev seed) sh dt i / sqrt (real_of_int rk))
                    [0..<numel sh],
          device = dev, dtype = dt\<rparr>"
  by (simp add: projection_def stable_randn_def torch_randn_def Let_def div_scalar_def
      seeded_def)

lemma flat_index_less: "i < m \<Longrightarrow> j < n \<Longrightarrow> i * n + j < m * (n::nat)"
proof -
  assume a: "i < m" "j < n"
  then have "i * n + j < i * n + n" by simp
  also have "\<dots> = Suc i * n" by simp
  also have "\<dots> \<le> m * n" using a(1) by (intro mult_le_mono1) simp
  finally show ?thesis .
qed

lemma flat_index_div: "j < n \<Longrightarrow> (i * n + j) div n = (i::nat)"
  by simp

lemma flat_index_mod: "j < n \<Longrightarrow> (i * n + j) mod n = (j::nat)"
  by simp

lemma matmul_2d:
  "shape a = [m, k] \<Longrightarrow> shape b = [k, n] \<Longrightarrow>
   matmul T a b =
     Inr \<lparr>shape = [m, n],
          elems = map (\<lambda>idx. \<Sum>l\<leftarrow>[0..<k].
                         elems a ! (idx div n * k + l) * elems b ! (l * n + idx mod n))
                    [0..<m * n],
          device = device a, dtype = dtype a\<rparr>"
  by (simp add: matmul_def)

lemma sum_list_upt_cong:
  "(\<And>l. l < k \<Longrightarrow> f l = (g l :: real)) \<Longrightarrow> (\<Sum>l\<leftarrow>[0..<k]. f l) = (\<Sum>l\<leftarrow>[0..<k]. g l)"
  by (intro arg_cong[where f = sum_list] map_cong) auto

lemma matmul_entries:
  assumes "shape a = [m, k]" "shape b = [k, n]"
  shows "\<exists>c. matmul T a b = Inr c \<and> shape c = [m, n] \<and> length (elems c) = m * n
           \<and> device c = device a \<and> dtype c = dtype a
           \<and> (\<forall>i<m. \<forall>j<n. elems c ! (i * n + j) =
                 (\<Sum>l\<leftarrow>[0..<k]. elems a ! (i * k + l) * elems b ! (l * n + j)))"
  unfolding matmul_2d[OF assms] by (simp add: flat_index_less)

lemma projection_entries:
  assumes "0 \<le> rk"
  shows "\<exists>P. projection T rk sh seed dev dt = Inr P \<and> shape P = sh
           \<and> length (elems P) = numel sh \<and> device P = dev \<and> dtype P = dt
           \<and> (\<forall>i<numel sh. elems P ! i =
                 randn_draw T (seeded T dev seed) sh dt i / sqrt (real_of_int rk))"
  unfolding projection_value[OF assms] by simp

lemma down_proj_wide:
  assumes "0 < r" "shape X = [m, n]" "m < n"
  shows "\<exists>Y. down_proj T seed r X = Inr Y \<and> shape Y = [nat r, n]
           \<and> length (elems Y) = nat r * n
           \<and> device Y = device X \<and> dtype Y = dtype X
           \<and> (\<forall>i<nat r. \<forall>j<n. elems Y ! (i * n + j) =
                 (\<Sum>l\<leftarrow>[0..<m]. left_matrix T seed (nat r) m (device X) (dtype X) i l
                                   * elems X ! (l * n + j)))"
proof -
  from assms(1) have r0: "0 \<le> r" by simp
  obtain L where L: "projection T r [nat r, m] (left_seed T seed) (device X) (dtype X) = Inr L"
    "shape L = [nat r, m]" "device L = device X" "dtype L = dtype X"
    and Le: "\<And>i. i < numel [nat r, m] \<Longrightarrow> elems L ! i =
       randn_draw T (seeded T (device X) (left_seed T seed)) [nat r, m] (dtype X) i
         / sqrt (real_of_int r)"
    using projection_entries[OF r0] by blast
  have dp: "down_proj T seed r X = matmul T L X"
    using assms L(1) by (simp add: down_proj_def split_seed_value dim_first_def dim_last_def)
  obtain Y where Y: "matmul T L X = Inr Y" "shape Y = [nat r, n]"
    "length (elems Y) = nat r * n" "device Y = device L" "dtype Y = dtype L"
    and Ye: "\<And>i j. i < nat r \<Longrightarrow> j < n \<Longrightarrow> elems Y ! (i * n + j) =
        (\<Sum>l\<leftarrow>[0..<m]. elems L ! (i * m + l) * elems X ! (l * n + j))"
    using matmul_entries[OF L(2) assms(2)] by blast
  have ent: "elems L ! (i * m + l) = left_matrix T seed (nat r) m (device X) (dtype X) i l"
    if "i < nat r" "l < m" for i l
    using that assms(1) Le[of "i * m + l"] flat_index_less[OF that]
    by (simp add: numel_def left_matrix_def)
  have "elems Y ! (i * n + j) =
      (\<Sum>l\<leftarrow>[0..<m]. left_matrix T seed (nat r) m (device X) (dtype X) i l * elems X ! (l * n + j))"
    if "i < nat r" "j < n" for i j
    unfolding Ye[OF that] by (rule sum_list_upt_cong) (simp add: ent that)
  then show ?thesis using dp Y L by auto
qed

lemma down_proj_tall:
  assumes "0 < r" "shape X = [m, n]" "\<not> m < n"
  shows "\<exists>Y. down_proj T seed r X = Inr Y \<and> shape Y = [m, nat r]
           \<and> length (elems Y) = m * nat r
           \<and> device Y = device X \<and> dtype Y = dtype X
           \<and> (\<forall>i<m. \<forall>j<nat r. elems Y ! (i * nat r + j) =
                 (\<Sum>l\<leftarrow>[0..<n]. elems X ! (i * n + l)
                                   * right_matrix T seed (nat r) n (device X) (dtype X) l j))"
proof -
  from assms(1) have r0: "0 \<le> r" by simp
  obtain R where R: "projection T r [n, nat r] (right_seed T seed) (device X) (dtype X) = Inr R"
    "shape R = [n, nat r]"
    and Re: "\<And>i. i < numel [n, nat r] \<Longrightarrow> elems R ! i =
       randn_draw T (seeded T (device X) (right_seed T seed)) [n, nat r] (dtype X) i
         / sqrt (real_of_int r)"
    using projection_entries[OF r0] by blast
  have dp: "down_proj T seed r X = matmul T X R"
    using assms R(1) by (simp add: down_proj_def split_seed_value dim_first_def dim_last_def)
  obtain Y where Y: "matmul T X R = Inr Y" "shape Y = [m, nat r]"
    "length (elems Y) = m * nat r" "device Y = device X" "dtype Y = dtype X"
    and Ye: "\<And>i j. i < m \<Longrightarrow> j < nat r \<Longrightarrow> elems Y ! (i * nat r + j) =
        (\<Sum>l\<leftarrow>[0..<n]. elems X ! (i * n + l) * elems R ! (l * nat r + j))"
    using matmul_entries[OF assms(2) R(2)] by blast
  have ent: "elems R ! (l * nat r + j) = right_matrix T seed (nat r) n (device X) (dtype X) l j"
    if "l < n" "j < nat r" for l j
    using that assms(1) Re[of "l * nat r + j"] flat_index_less[OF that]
    by (simp add: numel_def right_matrix_def)
  have "elems Y ! (i * nat r + j) =
      (\<Sum>l\<leftarrow>[0..<n]. elems X ! (i * n + l) * right_matrix T seed (nat r) n (device X) (dtype X) l j)"
    if "i < m" "j < nat r" for i j
    unfolding Ye[OF that] by (rule sum_list_upt_cong) (simp add: ent that)
  then show ?thesis using dp Y by auto
qed

lemma tensor_t_entries:
  assumes "shape a = [m, n]"
  shows "\<exists>b. tensor_t a = Inr b \<and> shape b = [n, m] \<and> device b = device a
           \<and> dtype b = dtype a
           \<and> (\<forall>j<n. \<forall>i<m. elems b ! (j * m + i) = elems a ! (i * n + j))"
  using assms by (simp add: tensor_t_def Let_def flat_index_less)

lemma up_proj_wide:
  assumes "0 < r" "m < n" "shape C = [nat r, n]"
  shows "\<exists>Z. up_proj T seed r [m, n] C = Inr Z \<and> shape Z = [m, n]
           \<and> length (elems Z) = m * n
           \<and> device Z = device C \<and> dtype Z = dtype C
           \<and> (\<forall>i<m. \<forall>j<n. elems Z ! (i * n + j) =
                 (\<Sum>l\<leftarrow>[0..<nat r]. left_matrix T seed (nat r) m (device C) (dtype C) l i
                                       * elems C ! (l * n + j)))"
proof -
  from assms(1) have r0: "0 \<le> r" by simp
  obtain L where L: "projection T r [nat r, m] (left_seed T seed) (device C) (dtype C) = Inr L"
    "shape L = [nat r, m]" "device L = device C" "dtype L = dtype C"
    and Le: "\<And>i. i < numel [nat r, m] \<Longrightarrow> elems L ! i =
       randn_draw T (seeded T (device C) (left_seed T seed)) [nat r, m] (dtype C) i
         / sqrt (real_of_int r)"
    using projection_entries[OF r0] by blast
  obtain Lt where Lt: "tensor_t L = Inr Lt" "shape Lt = [m, nat r]" "device Lt = device L"
    "dtype Lt = dtype L"
    and Lte: "\<And>j i. j < m \<Longrightarrow> i < nat r \<Longrightarrow> elems Lt ! (j * nat r + i) = elems L ! (i * m + j)"
    using tensor_t_entries[OF L(2)] by blast
  have up: "up_proj T seed r [m, n] C = matmul T Lt C"
    using assms L(1) Lt(1) by (simp add: up_proj_def split_seed_value dim_first_def dim_last_def)
  obtain Z where Z: "matmul T Lt C = Inr Z" "shape Z = [m, n]"
    "length (elems Z) = m * n" "device Z = device Lt" "dtype Z = dtype Lt"
    and Ze: "\<And>i j. i < m \<Longrightarrow> j < n \<Longrightarrow> elems Z ! (i * n + j) =
        (\<Sum>l\<leftarrow>[0..<nat r]. elems Lt ! (i * nat r + l) * elems C ! (l * n + j))"
    using matmul_entries[OF Lt(2) assms(3)] by blast
  have ent: "elems Lt ! (i * nat r + l) = left_matrix T seed (nat r) m (device C) (dtype C) l i"
    if "i < m" "l < nat r" for i l
    using that assms(1) Le[of "l * m + i"] flat_index_less[OF that(2) that(1)] Lte[OF that]
    by (simp add: numel_def left_matrix_def)
  have "elems Z ! (i * n + j) =
      (\<Sum>l\<leftarrow>[0..<nat r]. left_matrix T seed (nat r) m (device C) (dtype C) l i * elems C ! (l * n + j))"
    if "i < m" "j < n" for i j
    unfolding Ze[OF that] by (rule sum_list_upt_cong) (simp add: ent that)
  then show ?thesis using up Z Lt L by auto
qed

lemma up_proj_tall:
  assumes "0 < r" "\<not> m < n" "shape C = [m, nat r]"
  shows "\<exists>Z. up_proj T seed r [m, n] C = Inr Z \<and> shape Z = [m, n]
           \<and> length (elems Z) = m * n
           \<and> device Z = device C \<and> dtype Z = dtype C
           \<and> (\<forall>i<m. \<forall>j<n. elems Z ! (i * n + j) =
                 (\<Sum>l\<leftarrow>[0..<nat r]. elems C ! (i * nat r + l)
                                       * right_matrix T seed (nat r) n (device C) (dtype C) j l))"
proof -
  from assms(1) have r0: "0 \<le> r" by simp
  obtain R where R: "projection T r [n, nat r] (right_seed T seed) (device C) (dtype C) = Inr R"
    "shape R = [n, nat r]"
    and Re: "\<And>i. i < numel [n, nat r] \<Longrightarrow> elems R ! i =
       randn_draw T (seeded T (device C) (right_seed T seed)) [n, nat r] (dtype C) i
         / sqrt (real_of_int r)"
    using projection_entries[OF r0] by blast
  obtain Rt where Rt: "tensor_t R = Inr Rt" "shape Rt = [nat r, n]"
    and Rte: "\<And>j i. j < nat r \<Longrightarrow> i < n \<Longrightarrow> elems Rt ! (j * n + i) = elems R ! (i * nat r + j)"
    using tensor_t_entries[OF R(2)] by blast
  have up: "up_proj T seed r [m, n] C = matmul T C Rt"
    using assms R(1) Rt(1) by (simp add: up_proj_def split_seed_value dim_first_def dim_last_def)
  obtain Z where Z: "matmul T C Rt = Inr Z" "shape Z = [m, n]"
    "length (elems Z) = m * n" "device Z = device C" "dtype Z = dtype C"
    and Ze: "\<And>i j. i < m \<Longrightarrow> j < n \<Longrightarrow> elems Z ! (i * n + j) =
        (\<Sum>l\<leftarrow>[0..<nat r]. elems C ! (i * nat r + l) * elems Rt ! (l * n + j))"
    using matmul_entries[OF assms(3) Rt(2)] by blast
  have ent: "elems Rt ! (l * n + j) = right_matrix T seed (nat r) n (device C) (dtype C) j l"
    if "l < nat r" "j < n" for l j
    using that assms(1) Re[of "j * nat r + l"] flat_index_less[OF that(2) that(1)] Rte[OF that]
    by (simp add: numel_def right_matrix_def)
  have "elems Z ! (i * n + j) =
      (\<Sum>l\<leftarrow>[0..<nat r]. elems C ! (i * nat r + l) * right_matrix T seed (nat r) n (device C) (dtype C) j l)"
    if "i < m" "j < n" for i j
    unfolding Ze[OF that] by (rule sum_list_upt_cong) (simp add: ent that)
  then show ?thesis using up Z by auto
qed

text \<open>
  C6. For a rank \<open>r > 0\<close> and a matrix of shape \<open>(m, n)\<close>, with the two seeds that
  \<open>split_seed\<close> derives from the current seed: when \<open>m < n\<close>, \<open>down_proj\<close> returns
  the product of \<open>L\<close> and the matrix and \<open>up_proj\<close> the product of the transpose of
  \<open>L\<close> and the compressed matrix, where \<open>L\<close> has shape \<open>(r, m)\<close> and its entries
  are the draws of the generator seeded with the left seed, divided by \<open>sqrt r\<close>;
  otherwise \<open>down_proj\<close> returns the product of the matrix and \<open>R\<close> and \<open>up_proj\<close>
  the product of the compressed matrix and the transpose of \<open>R\<close>, where \<open>R\<close> has
  shape \<open>(n, r)\<close> and is drawn from the generator seeded with the right seed.
\<close>

theorem projection_operators:
  assumes "0 < r" and "shape X = [m, n]"
  shows "fst (split_seed T seed) = (left_seed T seed, right_seed T seed)
       \<and> (if m < n
          then \<exists>Y. down_proj T seed r X = Inr Y
                 \<and> is_product Y (nat r) m n
                      (left_matrix T seed (nat r) m (device X) (dtype X)) (entry X)
          else \<exists>Y. down_proj T seed r X = Inr Y
                 \<and> is_product Y m n (nat r)
                      (entry X) (right_matrix T seed (nat r) n (device X) (dtype X)))
       \<and> (if m < n
          then shape C = [nat r, n] \<longrightarrow>
               (\<exists>Z. up_proj T seed r (shape X) C = Inr Z
                 \<and> is_product Z m (nat r) n
                      (\<lambda>i l. left_matrix T seed (nat r) m (device C) (dtype C) l i) (entry C))
          else shape C = [m, nat r] \<longrightarrow>
               (\<exists>Z. up_proj T seed r (shape X) C = Inr Z
                 \<and> is_product Z m (nat r) n
                      (entry C) (\<lambda>l j. right_matrix T seed (nat r) n (device C) (dtype C) j l)))"
proof (cases "m < n")
  case True
  from down_proj_wide[OF assms True, of T seed]
  have d: "\<exists>Y. down_proj T seed r X = Inr Y
                 \<and> is_product Y (nat r) m n
                      (left_matrix T seed (nat r) m (device X) (dtype X)) (entry X)"
    using assms(2) by (auto simp: is_product_def entry_def)
  have u: "\<exists>Z. up_proj T seed r (shape X) C = Inr Z
                 \<and> is_product Z m (nat r) n
                      (\<lambda>i l. left_matrix T seed (nat r) m (device C) (dtype C) l i) (entry C)"
    if c: "shape C = [nat r, n]"
    using up_proj_wide[OF assms(1) True c, of T seed] assms(2) c
    by (auto simp: is_product_def entry_def)
  from d u True show ?thesis by (simp add: split_seed_value)
next
  case False
  from down_proj_tall[OF assms False, of T seed]
  have d: "\<exists>Y. down_proj T seed r X = Inr Y
                 \<and> is_product Y m n (nat r)
                      (entry X) (right_matrix T seed (nat r) n (device X) (dtype X))"
    using assms(2) by (auto simp: is_product_def entry_def)
  have u: "\<exists>Z. up_proj T seed r (shape X) C = Inr Z
                 \<and> is_product Z m (nat r) n
                      (entry C) (\<lambda>l j. right_matrix T seed (nat r) n (device C) (dtype C) j l)"
    if c: "shape C = [m, nat r]"
    using up_proj_tall[OF assms(1) False c, of T seed] assms(2) c
    by (auto simp: is_product_def entry_def)
  from d u False show ?thesis by (simp add: split_seed_value)
qed

subsection \<open>One update of one parameter\<close>

lemma ebind_eq_Inr: "(ebind m f = Inr y) = (\<exists>x. m = Inr x \<and> f x = Inr y)"
  by (cases m) simp_all

lemma next_seed_value: "fst (next_seed T seed 15) = Inr (rotated T seed)"
proof -
  have "last (map f [0..<15]) = f 14" for f :: "nat \<Rightarrow> int"
    by (simp add: last_map)
  then show ?thesis
    by (simp add: next_seed_def torch_randint_def Let_def rotated_def seeded_def)
qed

lemma init_cond:
  "((st \<noteq> empty_state \<and> st_step st = None) \<or> \<not> st \<noteq> empty_state) = (st_step st = None)"
  by (auto simp: empty_state_def)

lemma init_state_Inr:
  assumes "init_state grp p grad sc st = Inr st1"
  shows "st_seed st1 = st_seed st \<and> st_step st1 = Some (step_count st)"
  using assms unfolding init_state_def Let_def init_cond
  by (auto simp: step_count_def ebind_eq_Inr split: if_splits option.splits)

lemma full_path_Inr:
  assumes "full_path T grp p grad ea eas t st = Inr (p', st')"
  shows "st_seed st' = st_seed st \<and> st_step st' = st_step st
         \<and> p_grad p' = p_grad p \<and> requires_grad p' = requires_grad p"
  using assms unfolding full_path_def Let_def
  by (auto simp: ebind_eq_Inr split: prod.splits option.splits)

lemma compressed_path_Inr:
  assumes "compressed_path T grp p grad ea eas t st = Inr (p', st')"
  shows "st_step st' = st_step st \<and> p_grad p' = p_grad p
         \<and> requires_grad p' = requires_grad p \<and> kappa grp \<noteq> 0
         \<and> (\<exists>s. st_seed st = Some s
               \<and> st_seed st' = Some (if int t mod kappa grp = 0 then rotated T s else s))"
proof (cases "int t mod kappa grp = 0")
  case True
  with assms show ?thesis unfolding compressed_path_def Let_def
    by (clarsimp simp: ebind_eq_Inr next_seed_value
        split: prod.splits option.split_asm if_split_asm)
next
  case False
  with assms show ?thesis unfolding compressed_path_def Let_def
    by (clarsimp simp: ebind_eq_Inr next_seed_value
        split: prod.splits option.split_asm if_split_asm)
qed

lemma update_param_Inr:
  assumes "update_param T grp p grad st = Inr (p', st')"
  shows "st_step st' = Some (step_count st + 1) \<and> p_grad p' = p_grad p
         \<and> requires_grad p' = requires_grad p
         \<and> (\<exists>sc. should_compress grp (shape grad) = Inr sc
              \<and> (if sc \<and> int (step_count st + 1) mod kappa grp = 0
                  then \<exists>s. st_seed st = Some s \<and> st_seed st' = Some (rotated T s)
                  else st_seed st' = st_seed st))"
proof -
  define k where "k = (\<lambda>sc st1.
       case st_exp_avg st1 of
         None \<Rightarrow> Inl (KeyError ''exp_avg'')
       | Some exp_avg \<Rightarrow>
       case st_exp_avg_sq st1 of
         None \<Rightarrow> Inl (KeyError ''exp_avg_sq'')
       | Some exp_avg_sq \<Rightarrow>
       case st_step st1 of
         None \<Rightarrow> Inl (KeyError ''step'')
       | Some n \<Rightarrow>
           (if sc then compressed_path T grp p grad exp_avg exp_avg_sq (n + 1)
                         (st1\<lparr>st_step := Some (n + 1)\<rparr>)
            else full_path T grp p grad exp_avg exp_avg_sq (n + 1)
                   (st1\<lparr>st_step := Some (n + 1)\<rparr>)))"
  have up: "update_param T grp p grad st =
      ebind (should_compress grp (shape grad)) (\<lambda>sc. ebind (init_state grp p grad sc st) (k sc))"
    unfolding update_param_def k_def Let_def ..
  from assms obtain sc st1 where
    sc: "should_compress grp (shape grad) = Inr sc" and
    st1: "init_state grp p grad sc st = Inr st1" and
    kk: "k sc st1 = Inr (p', st')"
    unfolding up by (auto simp: ebind_eq_Inr)
  from kk obtain ea eas n where
    n0: "st_step st1 = Some n" and
    br0: "(if sc then compressed_path T grp p grad ea eas (n + 1) (st1\<lparr>st_step := Some (n + 1)\<rparr>)
         else full_path T grp p grad ea eas (n + 1) (st1\<lparr>st_step := Some (n + 1)\<rparr>)) = Inr (p', st')"
    unfolding k_def by (auto split: option.split_asm)
  define t where "t = step_count st + 1"
  from init_state_Inr[OF st1] n0 have n: "n + 1 = t"
    and sd: "st_seed st1 = st_seed st" by (simp_all add: t_def)
  note br = br0[unfolded n]
  have "st_step st' = Some t \<and> p_grad p' = p_grad p
         \<and> requires_grad p' = requires_grad p
         \<and> (if sc \<and> int t mod kappa grp = 0
             then \<exists>s. st_seed st = Some s \<and> st_seed st' = Some (rotated T s)
             else st_seed st' = st_seed st)"
  proof (cases sc)
    case True
    with br have "compressed_path T grp p grad ea eas t (st1\<lparr>st_step := Some t\<rparr>) = Inr (p', st')"
      by simp
    from compressed_path_Inr[OF this] obtain s where
      "st_step st' = Some t" "p_grad p' = p_grad p" "requires_grad p' = requires_grad p" and
      s1: "st_seed st1 = Some s" and
      "st_seed st' = Some (if int t mod kappa grp = 0 then rotated T s else s)"
      by auto
    moreover from s1 sd have "st_seed st = Some s" by simp
    ultimately show ?thesis using True by (cases "int t mod kappa grp = 0") simp_all
  next
    case False
    with br have "full_path T grp p grad ea eas t (st1\<lparr>st_step := Some t\<rparr>) = Inr (p', st')"
      by simp
    from full_path_Inr[OF this] False sd show ?thesis by simp
  qed
  with sc show ?thesis unfolding t_def by blast
qed

subsection \<open>Seed rotation\<close>

lemma updates_seed_trace:
  assumes "updates T grp grads p st = Inr sts"
    and "\<forall>g\<in>set grads. should_compress grp (shape g) = Inr True"
    and "st_seed st = Some s"
  shows "map st_seed sts = map Some (seed_trace T (kappa grp) s (step_count st) (length grads))"
  using assms
proof (induction grads arbitrary: p st s sts)
  case Nil
  then show ?case by simp
next
  case (Cons grad grads)
  from Cons.prems(1) obtain p' st' sts' where
    u: "update_param T grp (p\<lparr>p_grad := Some grad\<rparr>) grad st = Inr (p', st')" and
    r: "updates T grp grads p' st' = Inr sts'" and
    e: "sts = st' # sts'"
    by (auto split: sum.split_asm)
  define t where "t = step_count st + 1"
  define s' where "s' = (if int t mod kappa grp = 0 then rotated T s else s)"
  from Cons.prems(2) have sc: "should_compress grp (shape grad) = Inr True" by simp
  from update_param_Inr[OF u] sc Cons.prems(3)
  have st': "st_step st' = Some t" and sd': "st_seed st' = Some s'"
    by (auto simp: t_def s'_def split: if_split_asm)
  from st' have cnt: "step_count st' = t" by (simp add: step_count_def)
  from Cons.prems(2) have all: "\<forall>g\<in>set grads. should_compress grp (shape g) = Inr True"
    by simp
  from Cons.IH[OF r all sd'] cnt
  have "map st_seed sts' = map Some (seed_trace T (kappa grp) s' t (length grads))" by simp
  with e sd' show ?case by (simp add: Let_def t_def s'_def)
qed

lemma seed_trace_4_10:
  "seed_trace T 4 s 0 10 =
     [s, s, s, rotated T s, rotated T s, rotated T s, rotated T s,
      rotated T (rotated T s), rotated T (rotated T s), rotated T (rotated T s)]"
  by (simp add: eval_nat_numeral Let_def)

lemma upt_1_11: "[1..<11] = [1, 2, 3, 4, 5, 6, 7, 8, 9, 10::nat]"
  by (simp add: upt_rec)

text \<open>
  C3. An update that returns changes the stored seed only if compression is active for
  the parameter and the incremented step counter is a multiple of kappa, and then the
  seed is replaced by \<open>next_seed\<close> of the current one. With kappa 4, over 10 updates of
  a compressed parameter starting at step 0, the seed is replaced after updates 4 and
  8 and on no other update; where \<open>next_seed\<close> moves both seeds, these are exactly the
  updates after which the stored value differs.
\<close>

theorem seed_rotation:
  "(update_param T grp p grad st = Inr (p', st') \<longrightarrow>
      (st_seed st' \<noteq> st_seed st \<longrightarrow>
         should_compress grp (shape grad) = Inr True
         \<and> int (step_count st + 1) mod kappa grp = 0)
      \<and> (should_compress grp (shape grad) = Inr True
           \<and> int (step_count st + 1) mod kappa grp = 0 \<longrightarrow>
         (\<exists>s s'. st_seed st = Some s \<and> fst (next_seed T s 15) = Inr s'
                 \<and> st_seed st' = Some s')))
   \<and> (kappa grp = 4 \<and> length grads = 10
       \<and> (\<forall>g\<in>set grads. should_compress grp (shape g) = Inr True)
       \<and> step_count ini = 0 \<and> st_seed ini = Some s
       \<and> updates T grp grads q ini = Inr sts \<longrightarrow>
       (\<exists>s1 s2. fst (next_seed T s 15) = Inr s1 \<and> fst (next_seed T s1 15) = Inr s2
          \<and> map st_seed sts = map Some [s, s, s, s1, s1, s1, s1, s2, s2, s2]
          \<and> (s1 \<noteq> s \<and> s2 \<noteq> s1 \<longrightarrow>
               filter (\<lambda>k. (st_seed ini # map st_seed sts) ! k
                              \<noteq> (st_seed ini # map st_seed sts) ! (k - 1)) [1..<11]
                 = [4, 8])))"
proof -
  have one: "should_compress grp (shape grad) = Inr True
         \<and> int (step_count st + 1) mod kappa grp = 0"
    if u: "update_param T grp p grad st = Inr (p', st')" and "st_seed st' \<noteq> st_seed st"
    using update_param_Inr[OF u] that(2) by (auto split: if_split_asm)
  have two: "\<exists>s s'. st_seed st = Some s \<and> fst (next_seed T s 15) = Inr s' \<and> st_seed st' = Some s'"
    if u: "update_param T grp p grad st = Inr (p', st')"
      and "should_compress grp (shape grad) = Inr True
           \<and> int (step_count st + 1) mod kappa grp = 0"
    using update_param_Inr[OF u] that(2) by (auto simp: next_seed_value)
  have three: "\<exists>s1 s2. fst (next_seed T s 15) = Inr s1 \<and> fst (next_seed T s1 15) = Inr s2
          \<and> map st_seed sts = map Some [s, s, s, s1, s1, s1, s1, s2, s2, s2]
          \<and> (s1 \<noteq> s \<and> s2 \<noteq> s1 \<longrightarrow>
               filter (\<lambda>k. (st_seed ini # map st_seed sts) ! k
                              \<noteq> (st_seed ini # map st_seed sts) ! (k - 1)) [1..<11]
                 = [4, 8])"
    if a: "kappa grp = 4 \<and> length grads = 10
       \<and> (\<forall>g\<in>set grads. should_compress grp (shape g) = Inr True)
       \<and> step_count ini = 0 \<and> st_seed ini = Some s
       \<and> updates T grp grads q ini = Inr sts"
  proof -
    from a have tr: "map st_seed sts = map Some (seed_trace T 4 s 0 10)"
      using updates_seed_trace[of T grp grads q ini sts s] by simp
    let ?s1 = "rotated T s" and ?s2 = "rotated T (rotated T s)"
    have m: "map st_seed sts = map Some [s, s, s, ?s1, ?s1, ?s1, ?s1, ?s2, ?s2, ?s2]"
      using tr unfolding seed_trace_4_10 .
    have "?s1 \<noteq> s \<and> ?s2 \<noteq> ?s1 \<longrightarrow>
               filter (\<lambda>k. (st_seed ini # map st_seed sts) ! k
                              \<noteq> (st_seed ini # map st_seed sts) ! (k - 1)) [1..<11]
                 = [4, 8]"
      using a unfolding m upt_1_11 by simp
    with m show ?thesis
      by (intro exI[of _ ?s1] exI[of _ ?s2]) (simp add: next_seed_value)
  qed
  show ?thesis
    apply (intro conjI impI)
    subgoal using one by simp
    subgoal using one by simp
    subgoal using two by simp
    subgoal using three by simp
    done
qed

lemmas model_defs = update_param_def compressed_path_def full_path_def init_state_def
  should_compress_def down_proj_def up_proj_def projection_def matmul_def tensor_t_def
  dim_first_def dim_last_def add_inplace_def addcmul_inplace_def addcdiv_inplace_def
  copy_inplace_def operand_def mul_inplace_def div_scalar_def sqrt_t_def add_scalar_inplace_def
  zeros_def zeros_like_def numel_def empty_state_def split_seed_def next_seed_def
  stable_randn_def torch_randn_def torch_randint_def Let_def

lemma rotated_T0: "rotated T0 s = s + 15"
  by (simp add: rotated_def seeded_def T0_def)

lemma sc0: "should_compress g0 (shape X0) = Inr True"
  by (simp add: should_compress_def g0_def X0_def)

text \<open>one update on zero gradient from any step count and seed\<close>
lemma update0:
  "update_param T0 g0 p0 X0
     \<lparr>st_seed = Some s, st_step = Some n, st_exp_avg = Some X0, st_exp_avg_sq = Some X0\<rparr>
   = Inr (p0, \<lparr>st_seed = Some (if int (n + 1) mod 4 = 0 then s + 15 else s), st_step = Some (n + 1),
                st_exp_avg = Some X0, st_exp_avg_sq = Some X0\<rparr>)"
  by (simp add: model_defs g0_def X0_def p0_def T0_def upt_2 last_map)

lemma update0_first:
  "update_param T0 g0 p0 X0 st0
   = Inr (p0, \<lparr>st_seed = Some 7, st_step = Some 1,
                st_exp_avg = Some X0, st_exp_avg_sq = Some X0\<rparr>)"
  by (simp add: model_defs g0_def X0_def p0_def T0_def upt_2 st0_def)

lemma p0_grad: "p0\<lparr>p_grad := Some X0\<rparr> = p0"
  by (simp add: p0_def)

lemma run0:
  "updates T0 g0 [X0, X0, X0, X0, X0, X0, X0, X0, X0, X0] p0 st0 =
     Inr [S0 7 1, S0 7 2, S0 7 3, S0 22 4, S0 22 5, S0 22 6, S0 22 7, S0 37 8, S0 37 9,
          S0 37 10]"
  by (simp add: p0_grad update0_first update0 S0_def)

theorem seed_rotation_witness:
  "update_param T0 g0 p0 X0 (S0 7 3) = Inr (p0, S0 22 4)
   \<and> fst (next_seed T0 7 15) = Inr 22
   \<and> updates T0 g0 [X0, X0, X0, X0, X0, X0, X0, X0, X0, X0] p0 st0 =
     Inr [S0 7 1, S0 7 2, S0 7 3, S0 22 4, S0 22 5, S0 22 6, S0 22 7, S0 37 8, S0 37 9,
          S0 37 10]
   \<and> filter (\<lambda>k. (map Some [7, 7, 7, 7, 22, 22, 22, 22, 37, 37, 37]) ! k
                  \<noteq> (map Some [7, 7, 7, 7, 22, 22, 22, 22, 37, 37, 37::int]) ! (k - 1)) [1..<11]
       = [4, 8]"
proof -
  have u: "update_param T0 g0 p0 X0 (S0 7 3) = Inr (p0, S0 22 4)"
    by (simp add: update0 S0_def)
  have n: "fst (next_seed T0 7 15) = Inr 22"
    by (simp add: next_seed_value rotated_T0)
  have n2: "fst (next_seed T0 22 15) = Inr 37"
    by (simp add: next_seed_value rotated_T0)
  have c: "step_count (S0 7 3) = 3" "st_seed (S0 7 3) = Some 7" "st_seed (S0 22 4) = Some 22"
    "step_count st0 = 0" "st_seed st0 = Some 7" "kappa g0 = 4"
    by (simp_all add: S0_def step_count_def st0_def empty_state_def g0_def)
  from seed_rotation[of T0 g0 p0 X0 "S0 7 3" p0 "S0 22 4"
      "[X0, X0, X0, X0, X0, X0, X0, X0, X0, X0]" st0 7 p0
      "[S0 7 1, S0 7 2, S0 7 3, S0 22 4, S0 22 5, S0 22 6, S0 22 7, S0 37 8, S0 37 9, S0 37 10]"]
  show ?thesis using u n n2 c sc0 run0 by (simp add: S0_def)
qed

theorem projection_operators_witness:
  "(\<exists>Y. down_proj T0 7 1 Xw = Inr Y
        \<and> is_product Y 1 1 2 (left_matrix T0 7 1 1 CPU Float32) (entry Xw))
   \<and> (\<exists>Z. up_proj T0 7 1 [1, 2] Xw = Inr Z
        \<and> is_product Z 1 1 2 (\<lambda>i l. left_matrix T0 7 1 1 CPU Float32 l i) (entry Xw))
   \<and> (\<exists>Y. down_proj T0 7 1 Xt = Inr Y
        \<and> is_product Y 2 1 1 (entry Xt) (right_matrix T0 7 1 1 CPU Float32))
   \<and> (\<exists>Z. up_proj T0 7 1 [2, 1] Xt = Inr Z
        \<and> is_product Z 2 1 1 (entry Xt) (\<lambda>l j. right_matrix T0 7 1 1 CPU Float32 j l))
   \<and> down_proj T0 7 1 Xw = Inr (Xw\<lparr>elems := [24, 32]\<rparr>)
   \<and> down_proj T0 7 1 Xt = Inr (Xt\<lparr>elems := [27, 36]\<rparr>)"
proof -
  have a: "down_proj T0 7 1 Xw = Inr (Xw\<lparr>elems := [24, 32]\<rparr>)"
    by (simp add: model_defs Xw_def T0_def upt_2)
  have b: "down_proj T0 7 1 Xt = Inr (Xt\<lparr>elems := [27, 36]\<rparr>)"
    by (simp add: model_defs Xt_def T0_def upt_2)
  from projection_operators[of 1 Xw 1 2 T0 7 Xw] projection_operators[of 1 Xt 2 1 T0 7 Xt] a b
  show ?thesis by (simp add: Xw_def Xt_def)
qed

subsection \<open>The step over all parameters\<close>

lemma get_state_upd: "get_state (sts(h \<mapsto> st)) h' = (if h' = h then st else get_state sts h')"
  by (simp add: get_state_def)

lemma step_params_frame:
  assumes "step_params T grp hs (sts, ps) = Inr (sts', ps')"
  shows "(\<forall>h. p_grad (ps' h) = p_grad (ps h))
       \<and> (\<forall>h. h \<notin> set hs \<or> p_grad (ps h) = None \<longrightarrow> sts' h = sts h \<and> ps' h = ps h)"
  using assms
proof (induction hs arbitrary: sts ps)
  case Nil
  then show ?case by simp
next
  case (Cons a hs)
  show ?case
  proof (cases "p_grad (ps a)")
    case None
    with Cons.prems have "step_params T grp hs (sts, ps) = Inr (sts', ps')" by simp
    from Cons.IH[OF this] None show ?thesis by auto
  next
    case (Some grad)
    with Cons.prems obtain p1 st1 where
      u: "update_param T grp (ps a) grad (get_state sts a) = Inr (p1, st1)" and
      r: "step_params T grp hs (sts(a \<mapsto> st1), ps(a := p1)) = Inr (sts', ps')"
      by (auto split: sum.split_asm)
    from update_param_Inr[OF u] have g: "p_grad p1 = p_grad (ps a)" by simp
    from Cons.IH[OF r] have
      ih1: "\<And>h. p_grad (ps' h) = p_grad ((ps(a := p1)) h)" and
      ih2: "\<And>h. h \<notin> set hs \<or> p_grad ((ps(a := p1)) h) = None
              \<Longrightarrow> sts' h = (sts(a \<mapsto> st1)) h \<and> ps' h = (ps(a := p1)) h"
      by blast+
    have A: "p_grad (ps' h) = p_grad (ps h)" for h
      using ih1[of h] g by (cases "h = a") simp_all
    have B: "sts' h = sts h \<and> ps' h = ps h"
      if "h \<notin> set (a # hs) \<or> p_grad (ps h) = None" for h
    proof -
      from that Some have ne: "h \<noteq> a" by auto
      with that have "h \<notin> set hs \<or> p_grad ((ps(a := p1)) h) = None" by auto
      from ih2[OF this] ne show ?thesis by simp
    qed
    from A B show ?thesis by blast
  qed
qed

lemma step_groups_frame:
  assumes "step_groups T grps (sts, ps) = Inr (sts', ps')"
  shows "(\<forall>h. p_grad (ps' h) = p_grad (ps h))
       \<and> (\<forall>h. h \<notin> set (concat (map params grps)) \<or> p_grad (ps h) = None
              \<longrightarrow> sts' h = sts h \<and> ps' h = ps h)"
  using assms
proof (induction grps arbitrary: sts ps)
  case Nil
  then show ?case by simp
next
  case (Cons grp grps)
  from Cons.prems obtain sts1 ps1 where
    f: "step_params T grp (params grp) (sts, ps) = Inr (sts1, ps1)" and
    r: "step_groups T grps (sts1, ps1) = Inr (sts', ps')"
    by (auto split: sum.split_asm)
  from step_params_frame[OF f] Cons.IH[OF r] show ?case by auto
qed

lemma distinct_count_list: "distinct xs \<Longrightarrow> x \<in> set xs \<Longrightarrow> count_list xs x = 1"
  by (induction xs) auto

lemma step_params_count_list:
  assumes "step_params T grp hs (sts, ps) = Inr (sts', ps')" and "p_grad (ps h) \<noteq> None"
  shows "step_count (get_state sts' h) = step_count (get_state sts h) + count_list hs h"
  using assms
proof (induction hs arbitrary: sts ps)
  case Nil
  then show ?case by simp
next
  case (Cons a hs)
  show ?case
  proof (cases "p_grad (ps a)")
    case None
    with Cons.prems have r: "step_params T grp hs (sts, ps) = Inr (sts', ps')"
      and ne: "a \<noteq> h" by auto
    from Cons.IH[OF r Cons.prems(2)] ne show ?thesis by simp
  next
    case (Some grad)
    with Cons.prems obtain p1 st1 where
      u: "update_param T grp (ps a) grad (get_state sts a) = Inr (p1, st1)" and
      r: "step_params T grp hs (sts(a \<mapsto> st1), ps(a := p1)) = Inr (sts', ps')"
      by (auto split: sum.split_asm)
    from update_param_Inr[OF u] have g: "p_grad p1 = p_grad (ps a)"
      and c: "step_count st1 = step_count (get_state sts a) + 1"
      by (simp_all add: step_count_def)
    from g Some Cons.prems(2) have "p_grad ((ps(a := p1)) h) \<noteq> None" by simp
    from Cons.IH[OF r this]
    have "step_count (get_state sts' h)
        = step_count (get_state (sts(a \<mapsto> st1)) h) + count_list hs h" .
    with c show ?thesis by (simp add: get_state_upd)
  qed
qed

lemma step_groups_count_list:
  assumes "step_groups T grps (sts, ps) = Inr (sts', ps')" and "p_grad (ps h) \<noteq> None"
  shows "step_count (get_state sts' h)
         = step_count (get_state sts h) + count_list (concat (map params grps)) h"
  using assms
proof (induction grps arbitrary: sts ps)
  case Nil
  then show ?case by simp
next
  case (Cons grp grps)
  from Cons.prems(1) obtain sts1 ps1 where
    f: "step_params T grp (params grp) (sts, ps) = Inr (sts1, ps1)" and
    r: "step_groups T grps (sts1, ps1) = Inr (sts', ps')"
    by (auto split: sum.split_asm)
  from step_params_frame[OF f] Cons.prems(2) have "p_grad (ps1 h) \<noteq> None" by simp
  from Cons.IH[OF r this] step_params_count_list[OF f Cons.prems(2)]
  show ?case by simp
qed

text \<open>
  C7 (as amended). In an invocation of \<open>step\<close> that returns, a parameter whose
  gradient is null keeps its value and its whole state (step counter, seed, both
  moments), and the step counter of a parameter whose gradient is not null grows by
  the number of times the parameter occurs in the groups: by exactly 1 when the
  parameters of the groups are pairwise different. The gradients are those the closure
  leaves. The counterexample is a parameter passed twice in one sequence, which the
  constructor accepts and one step counts twice.
\<close>

theorem step_frame:
  assumes "step T closure self ps = Inr (loss, self', ps')"
  shows "(\<forall>h. p_grad (snd (run_closure closure ps) h) = None \<longrightarrow>
              ps' h = snd (run_closure closure ps) h \<and> state self' h = state self h)
       \<and> (\<forall>h. p_grad (snd (run_closure closure ps) h) \<noteq> None \<longrightarrow>
              step_count (get_state (state self') h)
                = step_count (get_state (state self) h)
                  + count_list (concat (map params (param_groups self))) h)
       \<and> (distinct (concat (map params (param_groups self))) \<longrightarrow>
            (\<forall>h\<in>set (concat (map params (param_groups self))).
               p_grad (snd (run_closure closure ps) h) \<noteq> None \<longrightarrow>
               step_count (get_state (state self') h)
                 = step_count (get_state (state self) h) + 1))"
proof -
  obtain l ps1 where rc: "run_closure closure ps = (l, ps1)" by (cases "run_closure closure ps")
  from assms rc obtain sts' where
    g: "step_groups T (param_groups self) (state self, ps1) = Inr (sts', ps')" and
    s: "self' = self\<lparr>state := sts'\<rparr>"
    unfolding step_def by (auto split: sum.split_asm)
  from step_groups_frame[OF g] have
    a: "\<forall>h. p_grad (ps1 h) = None \<longrightarrow> ps' h = ps1 h \<and> sts' h = state self h" by blast
  have b: "\<forall>h. p_grad (ps1 h) \<noteq> None \<longrightarrow>
               step_count (get_state sts' h)
                 = step_count (get_state (state self) h)
                   + count_list (concat (map params (param_groups self))) h"
    using step_groups_count_list[OF g] by blast
  have c: "\<forall>h\<in>set (concat (map params (param_groups self))).
               p_grad (ps1 h) \<noteq> None \<longrightarrow>
               step_count (get_state sts' h) = step_count (get_state (state self) h) + 1"
    if "distinct (concat (map params (param_groups self)))"
    using b distinct_count_list[OF that] by simp
  from a b c show ?thesis using rc s by simp
qed

subsection \<open>Construction\<close>

lemma overlap_iff:
  "list_ex (\<lambda>h. h \<in> set ys) xs = (set xs \<inter> set ys \<noteq> {})"
  by (auto simp: list_ex_iff)

lemma params_setdefaults [simp]: "params (setdefaults d a) = ga_params a"
  by (simp add: setdefaults_def)

lemma add_param_groups_result:
  "add_param_groups d as acc = Inr grps \<Longrightarrow> grps = acc @ map (setdefaults d) as"
  by (induction as arbitrary: acc) (fastforce split: if_split_asm)+

lemma add_param_groups_error:
  "add_param_groups d as acc = Inl e \<Longrightarrow> e = ValueError"
  by (induction as arbitrary: acc) (auto split: if_split_asm)

lemma add_param_groups_accepts:
  "(\<exists>grps. add_param_groups d as acc = Inr grps) =
     (set (concat (map ga_params as)) \<inter> set (concat (map params acc)) = {}
      \<and> groups_disjoint (map ga_params as))"
proof (induction as arbitrary: acc)
  case Nil
  show ?case by simp
next
  case (Cons a as)
  show ?case
  proof (cases "set (ga_params a) \<inter> set (concat (map params acc)) = {}")
    case True
    then have "add_param_groups d (a # as) acc
        = add_param_groups d as (acc @ [setdefaults d a])"
      by (auto simp: list_ex_iff)
    then show ?thesis using True Cons.IH[of "acc @ [setdefaults d a]"] by auto
  next
    case False
    then have "add_param_groups d (a # as) acc = Inl ValueError"
      by (auto simp: list_ex_iff)
    then show ?thesis using False by auto
  qed
qed

lemma assign_seeds_params_append:
  "assign_seeds_params ps (xs @ ys) acc
     = assign_seeds_params ps ys (assign_seeds_params ps xs acc)"
proof (induction xs arbitrary: acc)
  case Nil
  show ?case by simp
next
  case (Cons x xs)
  then show ?case by (cases acc) (simp add: Let_def)
qed

lemma assign_seeds_concat:
  "assign_seeds ps grps acc = assign_seeds_params ps (concat (map params grps)) acc"
  by (induction grps arbitrary: acc) (simp_all add: assign_seeds_params_append)


lemma assign_seeds_params_seeded:
  "(st_seed (get_state (snd (assign_seeds_params ps hs (k, sts))) h) \<noteq> None) =
     ((h \<in> set hs \<and> requires_grad (ps h)) \<or> st_seed (get_state sts h) \<noteq> None)"
proof (induction hs arbitrary: k sts)
  case Nil
  show ?case by simp
next
  case (Cons a hs)
  let ?sts1 = "if requires_grad (ps a)
               then sts(a \<mapsto> (get_state sts a)\<lparr>st_seed := Some (k + 1)\<rparr>) else sts"
  have unf: "assign_seeds_params ps (a # hs) (k, sts)
      = assign_seeds_params ps hs (k + 1, ?sts1)"
    by (simp add: Let_def)
  have one: "(st_seed (get_state ?sts1 h) \<noteq> None) =
      ((h = a \<and> requires_grad (ps a)) \<or> st_seed (get_state sts h) \<noteq> None)"
    by (simp add: get_state_upd)
  show ?case unfolding unf Cons.IH[of "k + 1" ?sts1] one by auto
qed


lemma flat_no_overrides: "concat (map ga_params [no_overrides hs]) = hs"
  by (simp add: no_overrides_def)

lemma FloraAdam_init_Inr:
  assumes "FloraAdam_init ps prms lr' betas' eps' rank' kappa' seed = Inr self"
  shows "concat (map params (param_groups self)) = flat_params prms"
    and "state self = snd (assign_seeds_params ps (flat_params prms) (seed, \<lambda>h. None))"
proof -
  let ?d = "\<lparr>params = [], lr = lr', betas = betas', eps = eps', rank = rank', kappa = kappa'\<rparr>"
  let ?args = "case prms of Tensors hs \<Rightarrow> (if hs = [] then [] else [no_overrides hs])
                           | Groups gs \<Rightarrow> gs"
  from assms obtain grps where
    g: "add_param_groups ?d ?args [] = Inr grps" and
    s: "self = \<lparr>param_groups = grps,
                state = snd (assign_seeds ps grps (seed, \<lambda>h. None))\<rparr>"
    unfolding FloraAdam_init_def Optimizer_init_def Let_def
    by (auto simp: ebind_eq_Inr split: if_split_asm)
  from add_param_groups_result[OF g] have grps: "grps = map (setdefaults ?d) ?args" by simp
  have fl: "concat (map params grps) = flat_params prms"
    unfolding grps by (cases prms) (simp_all add: comp_def no_overrides_def)
  from s fl show "concat (map params (param_groups self)) = flat_params prms" by simp
  from s fl show "state self = snd (assign_seeds_params ps (flat_params prms) (seed, \<lambda>h. None))"
    by (simp add: assign_seeds_concat)
qed

lemma FloraAdam_init_accepts:
  "(\<exists>self. FloraAdam_init ps prms lr' betas' eps' rank' kappa' seed = Inr self)
     = params_accepted prms"
proof (cases prms)
  case (Tensors hs)
  then show ?thesis
    by (simp add: FloraAdam_init_def Optimizer_init_def Let_def params_accepted_def
        ebind_eq_Inr no_overrides_def list_ex_iff)
next
  case (Groups gs)
  show ?thesis
  proof (cases "gs = []")
    case True
    with Groups show ?thesis
      by (simp add: FloraAdam_init_def Optimizer_init_def Let_def params_accepted_def)
  next
    case False
    with Groups add_param_groups_accepts[of _ gs "[]"] show ?thesis
      by (simp add: FloraAdam_init_def Optimizer_init_def Let_def params_accepted_def
          ebind_eq_Inr)
  qed
qed

lemma FloraAdam_init_error:
  assumes "FloraAdam_init ps prms lr' betas' eps' rank' kappa' seed = Inl e"
  shows "e = ValueError"
  using assms add_param_groups_error
  unfolding FloraAdam_init_def Optimizer_init_def Let_def ebind_def
  by (auto split: if_split_asm sum.split_asm)



lemma assign_seeds_params_None:
  "sts h = None \<Longrightarrow> \<not> (h \<in> set hs \<and> requires_grad (ps h))
     \<Longrightarrow> snd (assign_seeds_params ps hs (k, sts)) h = None"
proof (induction hs arbitrary: k sts)
  case Nil
  then show ?case by simp
next
  case (Cons x xs)
  let ?sts1 = "if requires_grad (ps x)
               then sts(x \<mapsto> (get_state sts x)\<lparr>st_seed := Some (k + 1)\<rparr>) else sts"
  from Cons.prems have "?sts1 h = None" by auto
  moreover from Cons.prems(2) have "\<not> (h \<in> set xs \<and> requires_grad (ps h))" by auto
  ultimately have "snd (assign_seeds_params ps xs (k + 1, ?sts1)) h = None"
    by (rule Cons.IH)
  then show ?case by (simp add: Let_def)
qed

text \<open>
  C10. After construction exactly the parameters that were passed and required a
  gradient hold a seed. An update of a parameter whose state has no seed, with a
  gradient whose shape the policy accepts, raises KeyError on \<open>seed\<close>: in particular
  the first update of any parameter that did not require a gradient at construction.
\<close>

theorem missing_seed:
  assumes "FloraAdam_init ps prms lr' betas' eps' rank' kappa' seed = Inr self"
  shows "(\<forall>h. (st_seed (get_state (state self) h) \<noteq> None) =
               (h \<in> set (flat_params prms) \<and> requires_grad (ps h)))
       \<and> (st_seed st = None \<and> should_compress grp (shape grad) = Inr True
            \<and> (st_step st = None \<or> (st_exp_avg st \<noteq> None \<and> st_exp_avg_sq st \<noteq> None))
            \<longrightarrow> update_param T grp p grad st = Inl (KeyError ''seed''))
       \<and> (\<not> (h \<in> set (flat_params prms) \<and> requires_grad (ps h))
            \<and> should_compress grp (shape grad) = Inr True
            \<longrightarrow> update_param T grp p grad (get_state (state self) h) = Inl (KeyError ''seed''))"
proof -
  have a: "(st_seed (get_state (state self) h) \<noteq> None) =
               (h \<in> set (flat_params prms) \<and> requires_grad (ps h))" for h
    unfolding FloraAdam_init_Inr(2)[OF assms] assign_seeds_params_seeded
    by (simp add: get_state_def empty_state_def)
  have b: "update_param T grp p grad s = Inl (KeyError ''seed'')"
    if ns: "st_seed s = None" and sc: "should_compress grp (shape grad) = Inr True"
      and w: "st_step s = None \<or> (st_exp_avg s \<noteq> None \<and> st_exp_avg_sq s \<noteq> None)"
    for s
  proof -
    from sc have sp: "spec_should_compress (rank grp) (shape grad)"
      by (simp add: should_compress_spec)
    then obtain r where r: "rank grp = Some r" "0 < r" and l: "length (shape grad) = 2"
      by (auto simp: spec_should_compress_def)
    from l obtain d0 d1 where sh: "shape grad = [d0, d1]"
      by (cases "shape grad"; cases "tl (shape grad)"; cases "tl (tl (shape grad))") auto
    obtain b1 b2 where bt: "betas grp = (b1, b2)" by (cases "betas grp")
    show ?thesis
    proof (cases "st_step s")
      case None
      have "init_state grp p grad True s =
          Inr (s\<lparr>st_step := Some 0,
                 st_exp_avg := Some (zeros (if d0 < d1 then [nat r, d1] else [d0, nat r])
                                      (device grad) (dtype grad)),
                 st_exp_avg_sq := Some (zeros_like (p_data p))\<rparr>)"
        unfolding init_state_def Let_def init_cond using None r sh
        by (simp add: dim_first_def dim_last_def)
      then show ?thesis using ns sc bt
        by (simp add: update_param_def Let_def compressed_path_def)
    next
      case (Some n)
      with w obtain ea eas where e: "st_exp_avg s = Some ea" "st_exp_avg_sq s = Some eas"
        by auto
      have "init_state grp p grad True s = Inr s"
        unfolding init_state_def Let_def init_cond using Some by simp
      then show ?thesis using Some e ns sc bt
        by (simp add: update_param_def Let_def compressed_path_def)
    qed
  qed
  have c: "update_param T grp p grad (get_state (state self) h) = Inl (KeyError ''seed'')"
    if n: "\<not> (h \<in> set (flat_params prms) \<and> requires_grad (ps h))"
      and sc: "should_compress grp (shape grad) = Inr True"
  proof -
    from a[of h] n have ns: "st_seed (get_state (state self) h) = None" by simp
    from n have "state self h = None" unfolding FloraAdam_init_Inr(2)[OF assms]
      by (intro assign_seeds_params_None) simp_all
    then have "st_step (get_state (state self) h) = None"
      by (simp add: get_state_def empty_state_def)
    with b[OF ns sc] show ?thesis by simp
  qed
  from a b c show ?thesis by blast
qed

theorem missing_seed_witness:
  "\<exists>self.
     FloraAdam_init store0 prms0 (Some 1) (1/2, 1/2) 1 (Some 1) 4 10 = Inr self
     \<and> st_seed (get_state (state self) 0) \<noteq> None
     \<and> st_seed (get_state (state self) 1) = None
     \<and> should_compress g0 (shape X0) = Inr True
     \<and> update_param T0 g0 (store0 1) X0 (get_state (state self) 1) = Inl (KeyError ''seed'')
     \<and> update_param T0 g0 p0 X0 empty_state = Inl (KeyError ''seed'')"
proof -
  have "\<exists>self. FloraAdam_init store0 prms0 (Some 1) (1/2, 1/2) 1 (Some 1) 4 10 = Inr self"
    by (simp add: FloraAdam_init_accepts params_accepted_def prms0_def no_overrides_def)
  then obtain self where
    s: "FloraAdam_init store0 prms0 (Some 1) (1/2, 1/2) 1 (Some 1) 4 10 = Inr self" by blast
  have fl: "flat_params prms0 = [0, 1, 2]"
    by (simp add: prms0_def no_overrides_def)
  have rg: "requires_grad (store0 0)" "\<not> requires_grad (store0 1)"
    by (simp_all add: store0_def p0_def)
  have e: "st_seed empty_state = None" "st_step empty_state = None"
    by (simp_all add: empty_state_def)
  note M = missing_seed[OF s, of empty_state g0 X0 T0 p0 1, unfolded fl]
  from M have a: "\<forall>h. (st_seed (get_state (state self) h) \<noteq> None) =
               (h \<in> set [0, 1, 2] \<and> requires_grad (store0 h))" by (rule conjunct1)
  from a[rule_format, of 0] rg have a0: "st_seed (get_state (state self) 0) \<noteq> None"
    by simp
  from a[rule_format, of 1] rg have a1: "st_seed (get_state (state self) 1) = None"
    by simp
  from M e sc0 have b: "update_param T0 g0 p0 X0 empty_state = Inl (KeyError ''seed'')"
    by simp
  from missing_seed[OF s, of empty_state g0 X0 T0 "store0 1" 1, unfolded fl] rg sc0
  have c: "update_param T0 g0 (store0 1) X0 (get_state (state self) 1) = Inl (KeyError ''seed'')"
    by simp
  from s a0 a1 sc0 b c show ?thesis by blast
qed

theorem construction_counterexample:
  "\<not> isl (FloraAdam_init store0 (Tensors [0]) None (3/2, - 1) 1 (Some 0) 0 0)
   \<and> param_groups (projr (FloraAdam_init store0 (Tensors [0]) None (3/2, - 1) 1 (Some 0) 0 0))
       = [\<lparr>params = [0], lr = None, betas = (3/2, - 1), eps = 1, rank = Some 0, kappa = 0\<rparr>]"
  by (simp add: FloraAdam_init_def Optimizer_init_def Let_def no_overrides_def setdefaults_def)

text \<open>
  C4 (as amended). The constructor validates none of rank, kappa, lr and the betas: for
  every value of these options it succeeds exactly when the parameter sequence is not
  empty and no parameter is in two groups, fails with ValueError otherwise, and stores
  the options as given; a rank that is not positive only switches compression off.
  The counterexample is a construction with lr unset, betas \<open>(3/2, -1)\<close>, rank 0 and
  kappa 0, which succeeds.
\<close>

theorem construction_unvalidated:
  "((\<exists>self. FloraAdam_init ps prms lr' betas' eps' rank' kappa' seed = Inr self)
      = params_accepted prms)
   \<and> (\<not> params_accepted prms \<longrightarrow>
        FloraAdam_init ps prms lr' betas' eps' rank' kappa' seed = Inl ValueError)
   \<and> (hs \<noteq> [] \<longrightarrow>
        (\<exists>self. FloraAdam_init ps (Tensors hs) lr' betas' eps' rank' kappa' seed = Inr self
           \<and> param_groups self =
               [\<lparr>params = hs, lr = lr', betas = betas', eps = eps', rank = rank',
                 kappa = kappa'\<rparr>]))
   \<and> (rank grp = Some r \<and> r \<le> 0 \<longrightarrow> should_compress grp sh = Inr False)"
proof -
  have b: "FloraAdam_init ps prms lr' betas' eps' rank' kappa' seed = Inl ValueError"
    if "\<not> params_accepted prms"
  proof (cases "FloraAdam_init ps prms lr' betas' eps' rank' kappa' seed")
    case (Inl e)
    with FloraAdam_init_error[OF Inl] show ?thesis by simp
  next
    case (Inr self)
    with that FloraAdam_init_accepts[of ps prms lr' betas' eps' rank' kappa' seed]
    show ?thesis by blast
  qed
  have c: "\<exists>self. FloraAdam_init ps (Tensors hs) lr' betas' eps' rank' kappa' seed = Inr self
           \<and> param_groups self =
               [\<lparr>params = hs, lr = lr', betas = betas', eps = eps', rank = rank',
                 kappa = kappa'\<rparr>]"
    if "hs \<noteq> []"
    using that
    by (simp add: FloraAdam_init_def Optimizer_init_def Let_def no_overrides_def
        setdefaults_def list_ex_iff)
  have d: "should_compress grp sh = Inr False" if "rank grp = Some r \<and> r \<le> 0"
    using that by (simp add: should_compress_def)
  from FloraAdam_init_accepts[of ps prms lr' betas' eps' rank' kappa' seed] b c d
  show ?thesis by blast
qed

theorem construction_unvalidated_witness:
  "params_accepted (Tensors [0])
   \<and> (\<exists>self. FloraAdam_init store0 (Tensors [0]) None (3/2, - 1) 1 (Some 0) 0 0 = Inr self
        \<and> param_groups self =
            [\<lparr>params = [0], lr = None, betas = (3/2, - 1), eps = 1, rank = Some 0,
              kappa = 0\<rparr>])
   \<and> \<not> params_accepted (Tensors [])
   \<and> FloraAdam_init store0 (Tensors []) (Some 1) (1/2, 1/2) 1 (Some 1) 4 0 = Inl ValueError
   \<and> should_compress (g0\<lparr>rank := Some 0\<rparr>) [2, 2] = Inr False"
  using construction_unvalidated[of store0 "Tensors []" "Some 1" "(1/2, 1/2)" 1 "Some 1" 4 0
      "[0]" "g0\<lparr>rank := Some 0\<rparr>" 0 "[2, 2]"]
    construction_unvalidated[of store0 "Tensors [0]" None "(3/2, - 1)" 1 "Some 0" 0 0
      "[0]" "g0\<lparr>rank := Some 0\<rparr>" 0 "[2, 2]"]
  by (simp add: params_accepted_def)

lemma step0:
  "step T0 None opt0 store0 =
     Inr (None, opt0\<lparr>state := (state opt0)(0 \<mapsto> S0 7 1)\<rparr>, store0(0 := p0))"
proof -
  have g: "params g0 = [0, 1]" by (simp add: g0_def)
  have s: "store0 0 = p0" "p_grad (store0 0) = Some X0" "p_grad (store0 1) = None"
    "get_state (state opt0) 0 = st0"
    by (simp_all add: store0_def p0_def opt0_def get_state_def)
  have pg: "param_groups opt0 = [g0]" by (simp add: opt0_def)
  have sp: "step_params T0 g0 (params g0) (state opt0, store0)
      = Inr ((state opt0)(0 \<mapsto> S0 7 1), store0(0 := p0))"
    unfolding g using s by (simp add: update0_first S0_def)
  have sg: "step_groups T0 (param_groups opt0) (state opt0, store0)
      = Inr ((state opt0)(0 \<mapsto> S0 7 1), store0(0 := p0))"
    unfolding pg by (simp add: sp)
  show ?thesis
    by (simp add: step_def run_closure_def sg)
qed

theorem step_frame_witness:
  "\<exists>loss self' ps'.
     step T0 None opt0 store0 = Inr (loss, self', ps')
     \<and> p_grad (store0 1) = None \<and> ps' 1 = store0 1 \<and> state self' 1 = state opt0 1
     \<and> p_grad (store0 0) \<noteq> None
     \<and> step_count (get_state (state opt0) 0) = 0
     \<and> step_count (get_state (state self') 0) = 1"
proof -
  have s: "p_grad (store0 0) = Some X0" "p_grad (store0 1) = None"
    "concat (map params (param_groups opt0)) = [0, 1]"
    "step_count (get_state (state opt0) 0) = 0"
    by (simp_all add: store0_def p0_def opt0_def g0_def get_state_def step_count_def st0_def
        empty_state_def)
  from step_frame[OF step0] s
  show ?thesis by (simp add: step0 run_closure_def)
qed

lemma optD_init:
  "FloraAdam_init store0 (Tensors [0, 0]) (Some 1) (1 / 2, 1 / 2) 1 (Some 1) 4 5 = Inr optD"
  by (auto simp: FloraAdam_init_def Optimizer_init_def Let_def no_overrides_def
      setdefaults_def optD_def gD_def g0_def store0_def p0_def get_state_def st0_def
      list_ex_iff fun_eq_iff)

theorem duplicate_counted_twice:
  "FloraAdam_init store0 (Tensors [0, 0]) (Some 1) (1 / 2, 1 / 2) 1 (Some 1) 4 5 = Inr optD
   \<and> p_grad (store0 0) = Some X0
   \<and> step_count (get_state (state optD) 0) = 0
   \<and> step T0 None optD store0
       = Inr (None, optD\<lparr>state := (state optD)(0 \<mapsto> S0 7 2)\<rparr>, store0)
   \<and> step_count (get_state ((state optD)(0 \<mapsto> S0 7 2)) 0) = 2"
proof -
  have pg: "param_groups optD = [gD]" "params gD = [0, 0]"
    by (simp_all add: optD_def gD_def)
  have s: "store0 0 = p0" "p_grad (store0 0) = Some X0"
    "get_state (state optD) 0 = st0"
    by (simp_all add: store0_def p0_def optD_def get_state_def)
  have u1: "update_param T0 gD p0 X0 st0 = Inr (p0, S0 7 1)"
    by (simp add: model_defs gD_def g0_def X0_def p0_def T0_def upt_2 st0_def S0_def)
  have u2: "update_param T0 gD p0 X0 (S0 7 (Suc 0)) = Inr (p0, S0 7 2)"
    by (simp add: model_defs gD_def g0_def X0_def p0_def T0_def upt_2 S0_def last_map)
  have e: "store0(0 := p0) = store0" using s(1) by (auto simp: fun_eq_iff)
  have sp: "step_params T0 gD (params gD) (state optD, store0)
      = Inr ((state optD)(0 \<mapsto> S0 7 2), store0)"
    unfolding pg using s by (simp add: u1 u2 e get_state_def)
  have sg: "step_groups T0 (param_groups optD) (state optD, store0)
      = Inr ((state optD)(0 \<mapsto> S0 7 2), store0)"
    unfolding pg(1) by (simp add: sp)
  have st: "step T0 None optD store0
       = Inr (None, optD\<lparr>state := (state optD)(0 \<mapsto> S0 7 2)\<rparr>, store0)"
    by (simp add: step_def run_closure_def sg)
  have c: "step_count (get_state (state optD) 0) = 0"
    "step_count (get_state ((state optD)(0 \<mapsto> S0 7 2)) 0) = 2"
    by (simp_all add: optD_def step_count_def st0_def empty_state_def get_state_def S0_def)
  from optD_init s(2) c st show ?thesis by simp
qed

subsection \<open>The full branch\<close>






subsection \<open>Which branch an update takes\<close>

lemma add_inplace_shape: "add_inplace T a b c = Inr r \<Longrightarrow> shape r = shape a"
  by (auto simp: add_inplace_def ebind_eq_Inr)

lemma copy_inplace_shape: "copy_inplace T a b = Inr r \<Longrightarrow> shape r = shape a"
  by (auto simp: copy_inplace_def ebind_eq_Inr)

lemma mul_inplace_shape [simp]: "shape (mul_inplace a c) = shape a"
  by (simp add: mul_inplace_def)

lemma full_path_mode:
  assumes "full_path T grp p grad M V t st = Inr (p', st')"
  shows "\<exists>M'. st_exp_avg st' = Some M' \<and> shape M' = shape M"
  using assms unfolding full_path_def Let_def
  by (clarsimp simp: ebind_eq_Inr split: prod.splits option.split_asm)
    (auto dest: add_inplace_shape)

lemma compressed_path_mode:
  assumes "compressed_path T grp p grad M V t st = Inr (p', st')"
  shows "\<exists>M'. st_exp_avg st' = Some M' \<and> shape M' = shape M"
proof (cases "int t mod kappa grp = 0")
  case True
  with assms show ?thesis unfolding compressed_path_def Let_def
    by (clarsimp simp: ebind_eq_Inr next_seed_value
        split: prod.splits option.split_asm if_split_asm)
      (auto dest!: add_inplace_shape copy_inplace_shape)
next
  case False
  with assms show ?thesis unfolding compressed_path_def Let_def
    by (clarsimp simp: ebind_eq_Inr next_seed_value
        split: prod.splits option.split_asm if_split_asm)
      (auto dest!: add_inplace_shape)
qed

lemma update_param_initialised:
  assumes "st_step st = Some n" "st_exp_avg st = Some M" "st_exp_avg_sq st = Some V"
  shows "update_param T grp p grad st =
          (if spec_should_compress (rank grp) (shape grad)
           then compressed_path T grp p grad M V (n + 1) (st\<lparr>st_step := Some (n + 1)\<rparr>)
           else full_path T grp p grad M V (n + 1) (st\<lparr>st_step := Some (n + 1)\<rparr>))"
proof -
  have i: "init_state grp p grad sc st = Inr st" for sc
    unfolding init_state_def Let_def init_cond using assms(1) by simp
  show ?thesis
    unfolding update_param_def Let_def
    by (simp add: should_compress_spec i assms)
qed

lemma update_param_fresh_full:
  assumes "st_step st = None" and "\<not> spec_should_compress (rank grp) (shape grad)"
  shows "update_param T grp p grad st =
           full_path T grp p grad (zeros_like (p_data p)) (zeros_like (p_data p)) 1
             (st\<lparr>st_exp_avg := Some (zeros_like (p_data p)),
                st_exp_avg_sq := Some (zeros_like (p_data p)), st_step := Some 1\<rparr>)"
proof -
  have i: "init_state grp p grad False st =
      Inr (st\<lparr>st_step := Some 0, st_exp_avg := Some (zeros_like (p_data p)),
             st_exp_avg_sq := Some (zeros_like (p_data p))\<rparr>)"
    unfolding init_state_def Let_def init_cond using assms(1) by simp
  show ?thesis
    unfolding update_param_def Let_def
    by (simp add: should_compress_spec assms(2) i)
qed

lemma update_param_fresh_compressed:
  assumes "st_step st = None" and "rank grp = Some r"
    and "spec_should_compress (rank grp) (shape grad)"
  shows "update_param T grp p grad st =
           compressed_path T grp p grad
             (zeros (compressed_shape r (shape grad)) (device grad) (dtype grad))
             (zeros_like (p_data p)) 1
             (st\<lparr>st_exp_avg := Some (zeros (compressed_shape r (shape grad)) (device grad)
                                      (dtype grad)),
                st_exp_avg_sq := Some (zeros_like (p_data p)), st_step := Some 1\<rparr>)"
proof -
  from assms(2,3) have r: "0 < r" and l: "length (shape grad) = 2"
    by (auto simp: spec_should_compress_def)
  from l obtain d0 d1 where sh: "shape grad = [d0, d1]"
    by (cases "shape grad"; cases "tl (shape grad)"; cases "tl (tl (shape grad))") auto
  have i: "init_state grp p grad True st =
      Inr (st\<lparr>st_step := Some 0,
             st_exp_avg := Some (zeros (compressed_shape r (shape grad)) (device grad)
                                   (dtype grad)),
             st_exp_avg_sq := Some (zeros_like (p_data p))\<rparr>)"
    unfolding init_state_def Let_def init_cond using assms(1,2) r sh
    by (simp add: dim_first_def dim_last_def compressed_shape_def)
  show ?thesis
    unfolding update_param_def Let_def
    using assms(2,3) by (simp add: should_compress_spec i)
qed

text \<open>
  C2 (as amended). The policy is evaluated on every update, the initializing one
  included, on the group's rank and the gradient's shape of that call, and the update
  takes the branch this evaluation selects: the initializing update allocates
  \<open>exp_avg\<close> in the shape the policy selects then and runs that branch; a later update
  runs the branch the policy selects at that call, whatever the shape in which
  \<open>exp_avg\<close> was allocated, and keeps that shape; a state that holds a step counter
  but lacks a moment raises KeyError before any branch. The policy depends on the rank and
  the shape alone, so while these stay the same every update takes the branch of the
  first. The counterexample is a parameter first updated with the rank unset (full
  branch) and then with rank 1 (compressed branch, which rotates the seed).
\<close>

theorem branch_follows_policy:
  "(rank grp' = rank grp \<longrightarrow> should_compress grp' sh = should_compress grp sh)
   \<and> (st_step ini = None \<and> \<not> spec_should_compress (rank grp) (shape grad) \<longrightarrow>
        update_param T grp p grad ini =
          full_path T grp p grad (zeros_like (p_data p)) (zeros_like (p_data p)) 1
            (ini\<lparr>st_exp_avg := Some (zeros_like (p_data p)),
                 st_exp_avg_sq := Some (zeros_like (p_data p)), st_step := Some 1\<rparr>))
   \<and> (st_step ini = None \<and> rank grp = Some r
        \<and> spec_should_compress (rank grp) (shape grad) \<longrightarrow>
        update_param T grp p grad ini =
          compressed_path T grp p grad
            (zeros (compressed_shape r (shape grad)) (device grad) (dtype grad))
            (zeros_like (p_data p)) 1
            (ini\<lparr>st_exp_avg := Some (zeros (compressed_shape r (shape grad)) (device grad)
                                       (dtype grad)),
                 st_exp_avg_sq := Some (zeros_like (p_data p)), st_step := Some 1\<rparr>))
   \<and> (st_step st = Some n \<and> st_exp_avg st = Some M \<and> st_exp_avg_sq st = Some V \<longrightarrow>
        update_param T grp p grad st =
          (if spec_should_compress (rank grp) (shape grad)
           then compressed_path T grp p grad M V (n + 1) (st\<lparr>st_step := Some (n + 1)\<rparr>)
           else full_path T grp p grad M V (n + 1) (st\<lparr>st_step := Some (n + 1)\<rparr>))
        \<and> (update_param T grp p grad st = Inr (p', st') \<longrightarrow>
             (\<exists>M'. st_exp_avg st' = Some M' \<and> shape M' = shape M)))
   \<and> (st_step bad \<noteq> None \<and> (st_exp_avg bad = None \<or> st_exp_avg_sq bad = None) \<longrightarrow>
        update_param T grp p grad bad =
          Inl (KeyError (if st_exp_avg bad = None then ''exp_avg'' else ''exp_avg_sq'')))"
proof -
  have a: "should_compress grp' sh = should_compress grp sh" if "rank grp' = rank grp"
    using that by (simp add: should_compress_spec)
  have f: "update_param T grp p grad ini =
          full_path T grp p grad (zeros_like (p_data p)) (zeros_like (p_data p)) 1
            (ini\<lparr>st_exp_avg := Some (zeros_like (p_data p)),
                 st_exp_avg_sq := Some (zeros_like (p_data p)), st_step := Some 1\<rparr>)"
    if "st_step ini = None \<and> \<not> spec_should_compress (rank grp) (shape grad)"
    using that update_param_fresh_full by blast
  have g: "update_param T grp p grad ini =
          compressed_path T grp p grad
            (zeros (compressed_shape r (shape grad)) (device grad) (dtype grad))
            (zeros_like (p_data p)) 1
            (ini\<lparr>st_exp_avg := Some (zeros (compressed_shape r (shape grad)) (device grad)
                                       (dtype grad)),
                 st_exp_avg_sq := Some (zeros_like (p_data p)), st_step := Some 1\<rparr>)"
    if "st_step ini = None \<and> rank grp = Some r
        \<and> spec_should_compress (rank grp) (shape grad)"
    using that update_param_fresh_compressed[of ini grp r grad T p] by blast
  have c: "\<exists>M'. st_exp_avg st' = Some M' \<and> shape M' = shape M"
    if i: "st_step st = Some n" "st_exp_avg st = Some M" "st_exp_avg_sq st = Some V"
      and u: "update_param T grp p grad st = Inr (p', st')"
  proof (cases "spec_should_compress (rank grp) (shape grad)")
    case True
    with u update_param_initialised[OF i, of T grp p grad]
    have "compressed_path T grp p grad M V (n + 1) (st\<lparr>st_step := Some (n + 1)\<rparr>)
        = Inr (p', st')" by simp
    then show ?thesis by (rule compressed_path_mode)
  next
    case False
    with u update_param_initialised[OF i, of T grp p grad]
    have "full_path T grp p grad M V (n + 1) (st\<lparr>st_step := Some (n + 1)\<rparr>)
        = Inr (p', st')" by simp
    then show ?thesis by (rule full_path_mode)
  qed
  have d: "update_param T grp p grad st =
          (if spec_should_compress (rank grp) (shape grad)
           then compressed_path T grp p grad M V (n + 1) (st\<lparr>st_step := Some (n + 1)\<rparr>)
           else full_path T grp p grad M V (n + 1) (st\<lparr>st_step := Some (n + 1)\<rparr>))
        \<and> (update_param T grp p grad st = Inr (p', st') \<longrightarrow>
             (\<exists>M'. st_exp_avg st' = Some M' \<and> shape M' = shape M))"
    if "st_step st = Some n \<and> st_exp_avg st = Some M \<and> st_exp_avg_sq st = Some V"
    using that c update_param_initialised[of st n M V T grp p grad] by blast
  have k: "update_param T grp p grad bad =
          Inl (KeyError (if st_exp_avg bad = None then ''exp_avg'' else ''exp_avg_sq''))"
    if "st_step bad \<noteq> None \<and> (st_exp_avg bad = None \<or> st_exp_avg_sq bad = None)"
  proof -
    from that obtain m where m: "st_step bad = Some m" by auto
    have i: "init_state grp p grad sc bad = Inr bad" for sc
      unfolding init_state_def Let_def init_cond using m by simp
    show ?thesis
      unfolding update_param_def Let_def
      using that m by (auto simp: should_compress_spec i)
  qed
  show ?thesis
    apply (intro conjI impI)
    subgoal using a by simp
    subgoal using f by blast
    subgoal using g by blast
    subgoal using d by simp
    subgoal using d by simp
    subgoal using k by simp
    done
qed

theorem mode_reevaluated:
  "should_compress gA (shape X0) = Inr False
   \<and> update_param T0 gA p0 X0 st0 = Inr (p0, S0 7 1)
   \<and> update_param T0 gA p0 X0 st0
       = full_path T0 gA p0 X0 X0 X0 1 (st0\<lparr>st_step := Some 1\<rparr>)
   \<and> should_compress gB (shape X0) = Inr True
   \<and> update_param T0 gB p0 X0 (S0 7 1) = Inr (p0, S0 22 2)
   \<and> update_param T0 gB p0 X0 (S0 7 1)
       = compressed_path T0 gB p0 X0 X0 X0 2 ((S0 7 1)\<lparr>st_step := Some 2\<rparr>)
   \<and> full_path T0 gB p0 X0 X0 X0 2 ((S0 7 1)\<lparr>st_step := Some 2\<rparr>) = Inr (p0, S0 7 2)
   \<and> S0 22 2 \<noteq> S0 7 2"
  by (simp add: model_defs gA_def gB_def g0_def X0_def p0_def T0_def st0_def S0_def upt_2
      last_map)

theorem branch_follows_policy_witness:
  "rank gB = rank g0 \<and> should_compress gB [2, 8] = should_compress g0 [2, 8]
   \<and> st_step st0 = None \<and> \<not> spec_should_compress (rank gA) (shape X0)
   \<and> update_param T0 gA p0 X0 st0
       = full_path T0 gA p0 X0 X0 X0 1
           (st0\<lparr>st_exp_avg := Some X0, st_exp_avg_sq := Some X0, st_step := Some 1\<rparr>)
   \<and> rank gB = Some 1 \<and> spec_should_compress (rank gB) (shape X0)
   \<and> update_param T0 gB p0 X0 st0
       = compressed_path T0 gB p0 X0 X0 X0 1
           (st0\<lparr>st_exp_avg := Some X0, st_exp_avg_sq := Some X0, st_step := Some 1\<rparr>)
   \<and> update_param T0 gB p0 X0 (S0 7 1)
       = compressed_path T0 gB p0 X0 X0 X0 2 ((S0 7 1)\<lparr>st_step := Some 2\<rparr>)
   \<and> update_param T0 gB p0 X0 (S0 7 1) = Inr (p0, S0 22 2)
   \<and> (\<exists>M'. st_exp_avg (S0 22 2) = Some M' \<and> shape M' = shape X0)
   \<and> update_param T0 gA p0 X0 (S0 7 1)
       = full_path T0 gA p0 X0 X0 X0 2 ((S0 7 1)\<lparr>st_step := Some 2\<rparr>)
   \<and> st_step (st0\<lparr>st_step := Some 1\<rparr>) \<noteq> None
   \<and> st_exp_avg (st0\<lparr>st_step := Some 1\<rparr>) = None
   \<and> update_param T0 gB p0 X0 (st0\<lparr>st_step := Some 1\<rparr>) = Inl (KeyError ''exp_avg'')"
proof -
  have u: "update_param T0 gB p0 X0 (S0 7 1) = Inr (p0, S0 22 2)"
    by (simp add: model_defs gB_def g0_def X0_def p0_def T0_def S0_def upt_2 last_map)
  have s: "st_step (S0 7 1) = Some 1" "st_exp_avg (S0 7 1) = Some X0"
    "st_exp_avg_sq (S0 7 1) = Some X0" "st_step st0 = None"
    "st_step (st0\<lparr>st_step := Some 1\<rparr>) \<noteq> None"
    "st_exp_avg (st0\<lparr>st_step := Some 1\<rparr>) = None"
    by (simp_all add: S0_def st0_def empty_state_def)
  have r: "rank gB = rank g0" "rank gB = Some 1" "spec_should_compress (rank gB) (shape X0)"
    "\<not> spec_should_compress (rank gA) (shape X0)"
    by (simp_all add: gA_def gB_def g0_def X0_def spec_should_compress_def)
  have z: "zeros_like (p_data p0) = X0"
    "zeros (compressed_shape 1 (shape X0)) (device X0) (dtype X0) = X0"
    by (simp_all add: zeros_like_def zeros_def numel_def p0_def X0_def compressed_shape_def)
  have "1 + 1 = (2::nat)" by simp
  with branch_follows_policy[where grp = gB and grp' = g0 and sh = "[2, 8]" and st = "S0 7 1"
      and n = 1 and M = X0 and V = X0 and T = T0 and p = p0 and grad = X0 and p' = p0
      and st' = "S0 22 2" and ini = st0 and r = 1
      and bad = "st0\<lparr>st_step := Some 1\<rparr>"]
    branch_follows_policy[where grp = gA and grp' = g0 and sh = "[2, 8]" and st = "S0 7 1"
      and n = 1 and M = X0 and V = X0 and T = T0 and p = p0 and grad = X0 and p' = p0
      and st' = "S0 22 2" and ini = st0 and r = 1
      and bad = "st0\<lparr>st_step := Some 1\<rparr>"]
    u s r z
  show ?thesis by (simp add: numeral_2_eq_2)
qed

end
